theory Spec2Isabelle
  imports Main "HOL-Library.Word" "HOL-Library.Signed_Division" "HOL-Library.AList"
begin

unbundle bit_operations_syntax

section \<open>Server status bits\<close>

text \<open>
  The status of a server is one 64-bit word (\<^verbatim>\<open>uint64_t status\<close>). The macros that name
  its bits are declared in the server header, which is not among the sources. Each is one
  bit; the positions below are the header's layout. Nothing proved in this theory depends
  on the positions, only on the bits being pairwise distinct.
\<close>

type_synonym status_t = "64 word"

definition SERVER_RUNNING :: status_t where "SERVER_RUNNING = 0x1"
definition SERVER_MAINT :: status_t where "SERVER_MAINT = 0x2"
definition SERVER_AUTH_ERROR :: status_t where "SERVER_AUTH_ERROR = 0x4"
definition SERVER_MASTER :: status_t where "SERVER_MASTER = 0x8"
definition SERVER_SLAVE :: status_t where "SERVER_SLAVE = 0x10"
definition SERVER_BEING_DRAINED :: status_t where "SERVER_BEING_DRAINED = 0x20"
definition SERVER_DISK_SPACE_EXHAUSTED :: status_t where "SERVER_DISK_SPACE_EXHAUSTED = 0x40"
definition SERVER_WAS_MASTER :: status_t where "SERVER_WAS_MASTER = 0x40000"
definition SERVER_JOINED :: status_t where "SERVER_JOINED = 0x80000"
definition SERVER_NDB :: status_t where "SERVER_NDB = 0x100000"

text \<open>monitor.cc, \<^verbatim>\<open>server_type_bits\<close> and \<^verbatim>\<open>all_server_bits\<close>.\<close>

definition server_type_bits :: status_t where
  "server_type_bits = SERVER_MASTER OR SERVER_SLAVE OR SERVER_JOINED OR SERVER_NDB"

definition all_server_bits :: status_t where
  "all_server_bits = SERVER_RUNNING OR SERVER_MAINT OR SERVER_MASTER OR SERVER_SLAVE
     OR SERVER_JOINED OR SERVER_NDB"

section \<open>Monitor: the event of a status change\<close>

datatype mxs_monitor_event_t =
    UNDEFINED_EVENT
  | MASTER_DOWN_EVENT | MASTER_UP_EVENT
  | SLAVE_DOWN_EVENT | SLAVE_UP_EVENT
  | SERVER_DOWN_EVENT | SERVER_UP_EVENT
  | SYNCED_DOWN_EVENT | SYNCED_UP_EVENT
  | NDB_DOWN_EVENT | NDB_UP_EVENT
  | LOST_MASTER_EVENT | LOST_SLAVE_EVENT | LOST_SYNCED_EVENT | LOST_NDB_EVENT
  | NEW_MASTER_EVENT | NEW_SLAVE_EVENT | NEW_SYNCED_EVENT | NEW_NDB_EVENT

datatype general_event_type =
  DOWN_EVENT | UP_EVENT | LOSS_EVENT | NEW_EVENT | UNSUPPORTED_EVENT

text \<open>
  \<^verbatim>\<open>mon_get_event_type\<close>, first half: the local \<^verbatim>\<open>event_type\<close> computed from the masked
  previous and present status. \<^verbatim>\<open>mxb_assert\<close> is compiled out of release builds, so the
  branch "was not running and still is not" leaves \<^verbatim>\<open>UNSUPPORTED_EVENT\<close>.
\<close>

definition general_event :: "status_t \<Rightarrow> status_t \<Rightarrow> general_event_type" where
  "general_event prev present =
     (if prev AND SERVER_RUNNING = 0 then
        (if present AND SERVER_RUNNING \<noteq> 0 then UP_EVENT else UNSUPPORTED_EVENT)
      else if present AND SERVER_RUNNING = 0 then DOWN_EVENT
      else
        (let prev_bits = prev AND (SERVER_MASTER OR SERVER_SLAVE);
             present_bits = present AND (SERVER_MASTER OR SERVER_SLAVE)
         in if (prev_bits = 0 \<or> present_bits = 0 \<or> prev_bits = present_bits)
               \<and> prev AND server_type_bits \<noteq> 0
            then LOSS_EVENT else NEW_EVENT))"

text \<open>Second half: the \<^verbatim>\<open>switch\<close> that picks the event by the role bit.\<close>

definition event_of_type ::
  "general_event_type \<Rightarrow> status_t \<Rightarrow> status_t \<Rightarrow> mxs_monitor_event_t" where
  "event_of_type event_type prev present =
     (case event_type of
        UP_EVENT \<Rightarrow>
          (if present AND SERVER_MASTER \<noteq> 0 then MASTER_UP_EVENT
           else if present AND SERVER_SLAVE \<noteq> 0 then SLAVE_UP_EVENT
           else if present AND SERVER_JOINED \<noteq> 0 then SYNCED_UP_EVENT
           else if present AND SERVER_NDB \<noteq> 0 then NDB_UP_EVENT
           else SERVER_UP_EVENT)
      | DOWN_EVENT \<Rightarrow>
          (if prev AND SERVER_MASTER \<noteq> 0 then MASTER_DOWN_EVENT
           else if prev AND SERVER_SLAVE \<noteq> 0 then SLAVE_DOWN_EVENT
           else if prev AND SERVER_JOINED \<noteq> 0 then SYNCED_DOWN_EVENT
           else if prev AND SERVER_NDB \<noteq> 0 then NDB_DOWN_EVENT
           else SERVER_DOWN_EVENT)
      | LOSS_EVENT \<Rightarrow>
          (if prev AND SERVER_MASTER \<noteq> 0 then LOST_MASTER_EVENT
           else if prev AND SERVER_SLAVE \<noteq> 0 then LOST_SLAVE_EVENT
           else if prev AND SERVER_JOINED \<noteq> 0 then LOST_SYNCED_EVENT
           else if prev AND SERVER_NDB \<noteq> 0 then LOST_NDB_EVENT
           else UNDEFINED_EVENT)
      | NEW_EVENT \<Rightarrow>
          (if present AND SERVER_MASTER \<noteq> 0 then NEW_MASTER_EVENT
           else if present AND SERVER_SLAVE \<noteq> 0 then NEW_SLAVE_EVENT
           else if present AND SERVER_JOINED \<noteq> 0 then NEW_SYNCED_EVENT
           else if present AND SERVER_NDB \<noteq> 0 then NEW_NDB_EVENT
           else UNDEFINED_EVENT)
      | UNSUPPORTED_EVENT \<Rightarrow> UNDEFINED_EVENT)"

text \<open>
  \<^verbatim>\<open>mon_get_event_type(node)\<close>, given \<^verbatim>\<open>node->mon_prev_status\<close> and
  \<^verbatim>\<open>node->server->status\<close>.
\<close>

definition mon_get_event_type :: "status_t \<Rightarrow> status_t \<Rightarrow> mxs_monitor_event_t" where
  "mon_get_event_type mon_prev_status status =
     (let prev = mon_prev_status AND all_server_bits;
          present = status AND all_server_bits
      in if prev = present then UNDEFINED_EVENT
         else event_of_type (general_event prev present) prev present)"


text \<open>monitor.cc, \<^verbatim>\<open>mon_status_changed\<close>: the guard under which
  \<^verbatim>\<open>detect_handle_state_changes\<close> calls \<^verbatim>\<open>mon_get_event_type\<close>. The previous status is
  \<^verbatim>\<open>(uint64_t)-1\<close> while unset.\<close>

definition mon_status_changed :: "status_t \<Rightarrow> status_t \<Rightarrow> bool" where
  "mon_status_changed mon_prev_status status =
     (if mon_prev_status \<noteq> - 1 then
        (let old_status = mon_prev_status AND all_server_bits;
             new_status = status AND all_server_bits
         in old_status \<noteq> new_status
            \<and> (old_status OR new_status) AND SERVER_MAINT = 0
            \<and> (old_status OR new_status) AND SERVER_RUNNING = SERVER_RUNNING)
      else False)"

subsection \<open>The transition table of the specification\<close>

text \<open>
  The vocabulary of the specification's table, for comparison with the code: the role bit
  that flavours an event (MASTER before SLAVE before JOINED before NDB), and the events
  named after it.
\<close>

datatype server_role = ROLE_MASTER | ROLE_SLAVE | ROLE_SYNCED | ROLE_NDB

definition first_role :: "status_t \<Rightarrow> server_role option" where
  "first_role s =
     (if s AND SERVER_MASTER \<noteq> 0 then Some ROLE_MASTER
      else if s AND SERVER_SLAVE \<noteq> 0 then Some ROLE_SLAVE
      else if s AND SERVER_JOINED \<noteq> 0 then Some ROLE_SYNCED
      else if s AND SERVER_NDB \<noteq> 0 then Some ROLE_NDB
      else None)"

definition lost_event :: "server_role option \<Rightarrow> mxs_monitor_event_t" where
  "lost_event r =
     (case r of Some ROLE_MASTER \<Rightarrow> LOST_MASTER_EVENT
      | Some ROLE_SLAVE \<Rightarrow> LOST_SLAVE_EVENT
      | Some ROLE_SYNCED \<Rightarrow> LOST_SYNCED_EVENT
      | Some ROLE_NDB \<Rightarrow> LOST_NDB_EVENT
      | None \<Rightarrow> UNDEFINED_EVENT)"

definition new_event :: "server_role option \<Rightarrow> mxs_monitor_event_t" where
  "new_event r =
     (case r of Some ROLE_MASTER \<Rightarrow> NEW_MASTER_EVENT
      | Some ROLE_SLAVE \<Rightarrow> NEW_SLAVE_EVENT
      | Some ROLE_SYNCED \<Rightarrow> NEW_SYNCED_EVENT
      | Some ROLE_NDB \<Rightarrow> NEW_NDB_EVENT
      | None \<Rightarrow> UNDEFINED_EVENT)"

text \<open>The table's rows for two running states, word for word: NEW when "P had no role bit,
  C has one"; LOSS when "P had a role bit, role bits unchanged or cleared".\<close>

definition spec_new_row :: "status_t \<Rightarrow> status_t \<Rightarrow> bool" where
  "spec_new_row P C \<longleftrightarrow> P AND server_type_bits = 0 \<and> C AND server_type_bits \<noteq> 0"

definition spec_loss_row :: "status_t \<Rightarrow> status_t \<Rightarrow> bool" where
  "spec_loss_row P C \<longleftrightarrow>
     P AND server_type_bits \<noteq> 0
     \<and> (C AND server_type_bits = P AND server_type_bits \<or> C AND server_type_bits = 0)"

text \<open>The condition the code tests for LOSS, on the unmasked words.\<close>

definition loss_condition :: "status_t \<Rightarrow> status_t \<Rightarrow> bool" where
  "loss_condition P C \<longleftrightarrow>
     P AND server_type_bits \<noteq> 0
     \<and> (P AND (SERVER_MASTER OR SERVER_SLAVE) = 0
        \<or> C AND (SERVER_MASTER OR SERVER_SLAVE) = 0
        \<or> P AND (SERVER_MASTER OR SERVER_SLAVE) = C AND (SERVER_MASTER OR SERVER_SLAVE))"

section \<open>Connection router (readconnroute)\<close>

subsection \<open>Servers of a service\<close>

text \<open>
  One \<^verbatim>\<open>SERVER_REF\<close> of the service's list \<^verbatim>\<open>dbref\<close>, with the fields of its \<^verbatim>\<open>SERVER\<close>
  that the router reads: \<^verbatim>\<open>server->status\<close> and the lifetime counter
  \<^verbatim>\<open>server->stats.n_connections\<close>. The counters and the weight are C \<^verbatim>\<open>int\<close>s of 32
  bits; the fields hold their values, and the arithmetic of the router on them is done
  with the wrap-around written out (\<open>int32\<close> below). A reference is identified by its
  position in the list, which stands for the pointer.
\<close>

record server_ref =
  status :: status_t
  n_connections :: int
  active :: bool
  weight :: int
  connections :: int

type_synonym ref_ptr = "nat \<times> server_ref"

text \<open>
  The helpers of the server and service headers, which are not among the sources. Modelled
  from the spec: "active" backends, backends "in maintenance", "RUNNING is set", and the
  comment of \<^verbatim>\<open>get_root_master\<close>: a master "must be running, not in maintenance and have
  the master bit set".
\<close>

definition SERVER_REF_IS_ACTIVE :: "server_ref \<Rightarrow> bool" where
  "SERVER_REF_IS_ACTIVE ref = active ref"

definition server_is_in_maint :: "server_ref \<Rightarrow> bool" where
  "server_is_in_maint ref = (status ref AND SERVER_MAINT \<noteq> 0)"

definition server_is_running :: "server_ref \<Rightarrow> bool" where
  "server_is_running ref =
     (status ref AND (SERVER_RUNNING OR SERVER_MAINT) = SERVER_RUNNING)"

definition server_is_master :: "server_ref \<Rightarrow> bool" where
  "server_is_master ref =
     (status ref AND (SERVER_RUNNING OR SERVER_MASTER OR SERVER_MAINT)
        = (SERVER_RUNNING OR SERVER_MASTER))"

subsection \<open>The role filter\<close>

text \<open>\<^verbatim>\<open>strcasecmp\<close> on ASCII, and the tokens of \<^verbatim>\<open>mxs::strtok(s, ", \t")\<close>: the maximal
  runs of characters that are not delimiters.\<close>

definition tolower_ascii :: "char \<Rightarrow> char" where
  "tolower_ascii c =
     (case map_of (zip ''ABCDEFGHIJKLMNOPQRSTUVWXYZ'' ''abcdefghijklmnopqrstuvwxyz'') c of
        Some l \<Rightarrow> l
      | None \<Rightarrow> c)"

definition strcasecmp_eq :: "string \<Rightarrow> string \<Rightarrow> bool" where
  "strcasecmp_eq a b = (map tolower_ascii a = map tolower_ascii b)"

fun strtok_from :: "string \<Rightarrow> string \<Rightarrow> string \<Rightarrow> string list" where
  "strtok_from delim cur [] = (if cur = [] then [] else [rev cur])"
| "strtok_from delim cur (c # cs) =
     (if c \<in> set delim
      then (if cur = [] then strtok_from delim [] cs
            else rev cur # strtok_from delim [] cs)
      else strtok_from delim (c # cur) cs)"

definition strtok :: "string \<Rightarrow> string \<Rightarrow> string list" where
  "strtok s delim = strtok_from delim [] s"

text \<open>The body of the loop of \<^verbatim>\<open>configureInstance\<close>: one option updates
  \<^verbatim>\<open>(bitmask, bitvalue, ok)\<close>.\<close>

definition configure_option ::
  "status_t \<times> status_t \<times> bool \<Rightarrow> string \<Rightarrow> status_t \<times> status_t \<times> bool" where
  "configure_option acc opt =
     (case acc of (bitmask, bitvalue, ok) \<Rightarrow>
        if strcasecmp_eq opt ''master''
        then (bitmask OR (SERVER_MASTER OR SERVER_SLAVE), bitvalue OR SERVER_MASTER, ok)
        else if strcasecmp_eq opt ''slave''
        then (bitmask OR (SERVER_MASTER OR SERVER_SLAVE), bitvalue OR SERVER_SLAVE, ok)
        else if strcasecmp_eq opt ''running''
        then (bitmask OR SERVER_RUNNING, bitvalue OR SERVER_RUNNING, ok)
        else if strcasecmp_eq opt ''synced''
        then (bitmask OR SERVER_JOINED, bitvalue OR SERVER_JOINED, ok)
        else if strcasecmp_eq opt ''ndb''
        then (bitmask OR SERVER_NDB, bitvalue OR SERVER_NDB, ok)
        else (bitmask, bitvalue, False))"

record router_instance =
  dbref :: "server_ref list"
  bitmask_and_bitvalue :: "64 word"
  n_sessions :: int

text \<open>\<^verbatim>\<open>configureInstance\<close>: the filter is stored only when every option is known. The
  result is the \<^verbatim>\<open>bool\<close> the function returns and the instance.\<close>

definition configureInstance :: "router_instance \<Rightarrow> string \<Rightarrow> bool \<times> router_instance" where
  "configureInstance inst router_options =
     (case foldl configure_option (0, 0, True) (strtok router_options ('', '' @ [CHR 0x09])) of
        (bitmask0, bitvalue0, ok) \<Rightarrow>
          (let (bitmask, bitvalue) =
                 (if bitmask0 = 0 \<and> bitvalue0 = 0
                  then (bitmask0 OR SERVER_RUNNING, bitvalue0 OR SERVER_RUNNING)
                  else (bitmask0, bitvalue0))
           in if ok
              then (True, inst\<lparr>bitmask_and_bitvalue := bitmask OR push_bit 32 bitvalue\<rparr>)
              else (False, inst)))"

subsection \<open>Sessions\<close>

text \<open>
  \<^verbatim>\<open>ROUTER_CLIENT_SES\<close>. Its declaration is in the router's header, not among the sources;
  \<^verbatim>\<open>bitmask\<close> and \<^verbatim>\<open>bitvalue\<close> are 32-bit fields there, so the assignment of the 64-bit
  \<^verbatim>\<open>mask\<close> keeps its low half. The backend is the position of the chosen reference, the
  DCB an opaque handle.
\<close>

record router_client_ses =
  bitmask :: "32 word"
  bitvalue :: "32 word"
  backend :: nat
  backend_dcb :: "nat option"
  rses_closed :: bool

text \<open>\<^verbatim>\<open>get_root_master\<close>: the active master of highest weight, the first one among equals.\<close>

fun get_root_master_loop :: "ref_ptr list \<Rightarrow> ref_ptr option \<Rightarrow> ref_ptr option" where
  "get_root_master_loop [] master_host = master_host"
| "get_root_master_loop (ref # refs) master_host =
     get_root_master_loop refs
       (if active (snd ref) \<and> server_is_master (snd ref)
        then (case master_host of
                None \<Rightarrow> Some ref
              | Some m \<Rightarrow> if weight (snd ref) > weight (snd m) then Some ref else master_host)
        else master_host)"

definition get_root_master :: "server_ref list \<Rightarrow> ref_ptr option" where
  "get_root_master servers = get_root_master_loop (enumerate 0 servers) None"

text \<open>
  The value of a 32-bit \<^verbatim>\<open>int\<close> that an arithmetic result is stored as: two's complement
  wrap-around, which is what the compiled router does when a sum or a product leaves the
  range (the language itself leaves signed overflow undefined).
\<close>

definition int32 :: "int \<Rightarrow> int" where
  "int32 x = (x + 2 ^ 31) mod 2 ^ 32 - 2 ^ 31"

text \<open>
  The load of a reference as the loop computes it,
  \<^verbatim>\<open>((ref->connections + 1) * 1000) / ref->weight\<close>, in \<^verbatim>\<open>int\<close> arithmetic: the sum and
  the product wrap, C's \<^verbatim>\<open>/\<close> truncates. The loop divides only by a weight that is not
  zero; the weights of a service are not negative, so the quotient stays in the range.
\<close>

definition conn_ratio :: "server_ref \<Rightarrow> int" where
  "conn_ratio ref = int32 (int32 (connections ref + 1) * 1000) sdiv weight ref"

text \<open>The \<^verbatim>\<open>if\<close> chain at the end of the loop body of \<^verbatim>\<open>newSession\<close>: the candidate after
  \<^verbatim>\<open>ref\<close> has been compared with it.\<close>

definition pick_candidate :: "ref_ptr option \<Rightarrow> ref_ptr \<Rightarrow> ref_ptr" where
  "pick_candidate candidate ref =
     (case candidate of
        None \<Rightarrow> ref
      | Some c \<Rightarrow>
          if weight (snd ref) = 0 \<or> weight (snd c) = 0
          then (if weight (snd ref) \<noteq> 0 then ref else c)
          else if conn_ratio (snd ref) < conn_ratio (snd c) then ref
          else if conn_ratio (snd ref) = conn_ratio (snd c)
                  \<and> n_connections (snd ref) < n_connections (snd c) then ref
          else c)"

text \<open>The test of the status bits against the session's filter, as the loop writes it.\<close>

definition status_matches :: "router_client_ses \<Rightarrow> server_ref \<Rightarrow> bool" where
  "status_matches rses ref =
     (server_is_running ref
      \<and> status ref AND ucast (bitmask rses) AND ucast (bitvalue rses) \<noteq> 0)"

text \<open>The \<^verbatim>\<open>for\<close> loop of \<^verbatim>\<open>newSession\<close> over the rest of the list; \<^verbatim>\<open>continue\<close> goes on
  with the same candidate, \<^verbatim>\<open>break\<close> returns.\<close>

fun select_loop ::
  "router_client_ses \<Rightarrow> ref_ptr option \<Rightarrow> ref_ptr list \<Rightarrow> ref_ptr option \<Rightarrow> ref_ptr option"
where
  "select_loop rses master_host [] candidate = candidate"
| "select_loop rses master_host (ref # refs) candidate =
     (if \<not> SERVER_REF_IS_ACTIVE (snd ref) \<or> server_is_in_maint (snd ref)
      then select_loop rses master_host refs candidate
      else if status_matches rses (snd ref)
      then (case master_host of
              Some m \<Rightarrow>
                if fst ref = fst m
                   \<and> bitvalue rses AND ucast (SERVER_SLAVE OR SERVER_MASTER) = ucast SERVER_SLAVE
                then select_loop rses master_host refs candidate
                else if fst ref = fst m \<and> bitvalue rses = ucast SERVER_MASTER
                then master_host
                else select_loop rses master_host refs (Some (pick_candidate candidate ref))
            | None \<Rightarrow>
                if bitvalue rses = ucast SERVER_MASTER
                then None
                else select_loop rses master_host refs (Some (pick_candidate candidate ref)))
      else select_loop rses master_host refs candidate)"

text \<open>
  \<^verbatim>\<open>newSession\<close>, first part: the session's filter is read from the instance, the root
  master is looked up, the loop runs, and a session left without candidate falls back to
  the root master (with the MASTER bit added to a slave filter). \<open>None\<close> is the error
  return "Couldn't find eligible candidate server".
\<close>

definition new_client_rses :: "router_instance \<Rightarrow> router_client_ses" where
  "new_client_rses inst =
     (let mask = bitmask_and_bitvalue inst
      in \<lparr>bitmask = ucast mask, bitvalue = ucast (drop_bit 32 mask),
          backend = 0, backend_dcb = None, rses_closed = False\<rparr>)"

definition select_backend :: "router_instance \<Rightarrow> (ref_ptr \<times> router_client_ses) option" where
  "select_backend inst =
     (let client_rses = new_client_rses inst;
          master_host = get_root_master (dbref inst)
      in case select_loop client_rses master_host (enumerate 0 (dbref inst)) None of
           Some c \<Rightarrow> Some (c, client_rses)
         | None \<Rightarrow>
             (case master_host of
                Some m \<Rightarrow>
                  Some (m, if bitvalue client_rses AND ucast SERVER_SLAVE \<noteq> 0
                           then client_rses\<lparr>bitvalue :=
                                  bitvalue client_rses OR ucast SERVER_MASTER\<rparr>
                           else client_rses)
              | None \<Rightarrow> None))"

text \<open>
  \<^verbatim>\<open>newSession\<close>, whole. What the environment decides is a parameter: whether
  \<^verbatim>\<open>MXS_CALLOC\<close> succeeds, and the handle \<^verbatim>\<open>dcb_connect\<close> returns for the chosen server
  (\<open>None\<close> is \<^verbatim>\<open>NULL\<close>). The result is the session (\<open>None\<close> for \<^verbatim>\<open>NULL\<close>) and the
  instance.
\<close>

definition newSession ::
  "bool \<Rightarrow> (ref_ptr \<Rightarrow> nat option) \<Rightarrow> router_instance
     \<Rightarrow> router_client_ses option \<times> router_instance" where
  "newSession calloc_ok dcb_connect inst =
     (if \<not> calloc_ok then (None, inst)
      else
        case select_backend inst of
          None \<Rightarrow> (None, inst)
        | Some (candidate, rses) \<Rightarrow>
            (case dcb_connect candidate of
               None \<Rightarrow> (None, inst)
             | Some dcb \<Rightarrow>
                 (Some (rses\<lparr>backend := fst candidate, backend_dcb := Some dcb\<rparr>),
                  inst\<lparr>dbref := (dbref inst)
                          [fst candidate :=
                             (snd candidate)\<lparr>connections := connections (snd candidate) + 1\<rparr>],
                       n_sessions := n_sessions inst + 1\<rparr>)))"

text \<open>\<^verbatim>\<open>closeSession\<close> marks the session closed and gives up the DCB; it touches no server.\<close>

definition closeSession :: "router_client_ses \<Rightarrow> router_client_ses" where
  "closeSession rses =
     (if rses_closed rses then rses
      else rses\<lparr>backend_dcb := None, rses_closed := True\<rparr>)"

text \<open>\<^verbatim>\<open>freeSession\<close>: \<^verbatim>\<open>atomic_add(&backend->connections, -1)\<close>.\<close>

definition freeSession :: "router_instance \<Rightarrow> router_client_ses \<Rightarrow> router_instance" where
  "freeSession inst rses =
     inst\<lparr>dbref := (dbref inst)
            [backend rses :=
               (dbref inst ! backend rses)
                 \<lparr>connections := connections (dbref inst ! backend rses) - 1\<rparr>]\<rparr>"

subsection \<open>The selection rules of the specification\<close>

text \<open>Step 2 of the specification, word for word: "\<open>(b.flags & mask) == (mask & value)\<close> AND
  RUNNING is set".\<close>

definition spec_role_filter :: "router_client_ses \<Rightarrow> server_ref \<Rightarrow> bool" where
  "spec_role_filter rses b \<longleftrightarrow>
     status b AND ucast (bitmask rses) = ucast (bitmask rses) AND ucast (bitvalue rses)
     \<and> status b AND SERVER_RUNNING \<noteq> 0"

text \<open>The filter the code applies: RUNNING is set and some bit of \<open>mask & value\<close> is.\<close>

definition code_role_filter :: "router_client_ses \<Rightarrow> server_ref \<Rightarrow> bool" where
  "code_role_filter rses b \<longleftrightarrow>
     status b AND SERVER_RUNNING \<noteq> 0
     \<and> status b AND (ucast (bitmask rses) AND ucast (bitvalue rses)) \<noteq> 0"

text \<open>Step 3, second case: the root master is not used as a slave.\<close>

definition skipped_root_master :: "router_client_ses \<Rightarrow> ref_ptr option \<Rightarrow> ref_ptr \<Rightarrow> bool" where
  "skipped_root_master rses master_host ref \<longleftrightarrow>
     (case master_host of
        None \<Rightarrow> False
      | Some m \<Rightarrow>
          fst ref = fst m
          \<and> bitvalue rses AND ucast (SERVER_SLAVE OR SERVER_MASTER) = ucast SERVER_SLAVE)"

text \<open>The candidates of a session: the active backends out of maintenance that pass the
  code's filter and are not the skipped root master, in the order of the list.\<close>

definition is_candidate :: "router_client_ses \<Rightarrow> ref_ptr option \<Rightarrow> ref_ptr \<Rightarrow> bool" where
  "is_candidate rses master_host ref \<longleftrightarrow>
     active (snd ref) \<and> status (snd ref) AND SERVER_MAINT = 0
     \<and> code_role_filter rses (snd ref)
     \<and> \<not> skipped_root_master rses master_host ref"

definition candidates ::
  "router_client_ses \<Rightarrow> ref_ptr option \<Rightarrow> server_ref list \<Rightarrow> ref_ptr list" where
  "candidates rses master_host servers =
     filter (is_candidate rses master_host) (enumerate 0 servers)"

text \<open>The ratio of step 4 of the specification, \<open>(connections + 1) * 1000 / weight\<close>, on
  the integers.\<close>

definition spec_ratio :: "server_ref \<Rightarrow> int" where
  "spec_ratio ref = ((connections ref + 1) * 1000) div weight ref"

text \<open>The order of step 4 on the loads the loop computes: a lower ratio, or the same ratio
  and not more lifetime sessions.\<close>

definition load_le :: "ref_ptr \<Rightarrow> ref_ptr \<Rightarrow> bool" where
  "load_le a b \<longleftrightarrow>
     conn_ratio (snd a) < conn_ratio (snd b)
     \<or> (conn_ratio (snd a) = conn_ratio (snd b)
        \<and> n_connections (snd a) \<le> n_connections (snd b))"

text \<open>What the loop requires of a backend before the special cases.\<close>

definition passes_filter :: "router_client_ses \<Rightarrow> ref_ptr \<Rightarrow> bool" where
  "passes_filter rses ref \<longleftrightarrow>
     active (snd ref) \<and> status (snd ref) AND SERVER_MAINT = 0
     \<and> code_role_filter rses (snd ref)"

subsection \<open>Example services\<close>

text \<open>A master and a relay server (master and slave at once), for sessions configured
  with \<^verbatim>\<open>router_options=slave\<close>.\<close>

definition relay_server :: server_ref where
  "relay_server = \<lparr>status = SERVER_RUNNING OR SERVER_MASTER OR SERVER_SLAVE,
     n_connections = 0, active = True, weight = 1, connections = 0\<rparr>"

definition relay_service :: router_instance where
  "relay_service =
     snd (configureInstance
       \<lparr>dbref = [\<lparr>status = SERVER_RUNNING OR SERVER_MASTER, n_connections = 0,
                    active = True, weight = 1, connections = 0\<rparr>,
                  relay_server],
        bitmask_and_bitvalue = 0, n_sessions = 0\<rparr> ''slave'')"

text \<open>Scenario 5 of the specification: S1 of weight 2 with 10 connections, S2 of weight 1
  with \<open>k\<close> connections.\<close>

definition slave_S1 :: server_ref where
  "slave_S1 = \<lparr>status = SERVER_RUNNING OR SERVER_SLAVE, n_connections = 10,
     active = True, weight = 2, connections = 10\<rparr>"

definition slave_S2 :: "int \<Rightarrow> server_ref" where
  "slave_S2 k = \<lparr>status = SERVER_RUNNING OR SERVER_SLAVE, n_connections = k,
     active = True, weight = 1, connections = k\<rparr>"

definition two_slaves :: "int \<Rightarrow> router_instance" where
  "two_slaves k =
     snd (configureInstance
       \<lparr>dbref = [slave_S1, slave_S2 k], bitmask_and_bitvalue = 0, n_sessions = 0\<rparr>
       ''slave'')"

text \<open>Two running servers of weight 0, no router option given; the second has had fewer
  sessions.\<close>

definition idle_A :: server_ref where
  "idle_A = \<lparr>status = SERVER_RUNNING, n_connections = 5, active = True, weight = 0,
     connections = 0\<rparr>"

definition idle_B :: server_ref where
  "idle_B = \<lparr>status = SERVER_RUNNING, n_connections = 1, active = True, weight = 0,
     connections = 0\<rparr>"

definition weightless_service :: router_instance where
  "weightless_service =
     snd (configureInstance
       \<lparr>dbref = [idle_A, idle_B], bitmask_and_bitvalue = 0, n_sessions = 0\<rparr> [])"

text \<open>Two slaves of weight 1: the first holds 2147483 connections, the second 5.\<close>

definition crowded_S1 :: server_ref where
  "crowded_S1 = \<lparr>status = SERVER_RUNNING OR SERVER_SLAVE, n_connections = 2147483,
     active = True, weight = 1, connections = 2147483\<rparr>"

definition quiet_S2 :: server_ref where
  "quiet_S2 = \<lparr>status = SERVER_RUNNING OR SERVER_SLAVE, n_connections = 5,
     active = True, weight = 1, connections = 5\<rparr>"

definition crowded_service :: router_instance where
  "crowded_service =
     snd (configureInstance
       \<lparr>dbref = [crowded_S1, quiet_S2], bitmask_and_bitvalue = 0, n_sessions = 0\<rparr>
       ''slave'')"

text \<open>A slave and a relay server that is the only master, for sessions configured with
  \<^verbatim>\<open>router_options=master\<close>.\<close>

definition relay_master_service :: router_instance where
  "relay_master_service =
     snd (configureInstance
       \<lparr>dbref = [slave_S1, relay_server], bitmask_and_bitvalue = 0, n_sessions = 0\<rparr>
       ''master'')"

section \<open>Replication stream processor (replicator)\<close>

text \<open>
  The events of the stream, with the fields \<^verbatim>\<open>process_one_event\<close> reads: the GTID event's
  domain id, the server id of the event and the sequence number; the table id of table-map
  and row events. Every other event type is \<open>OTHER_EVENT\<close>.
\<close>

datatype rpl_event =
    GTID_EVENT nat nat nat
  | XID_EVENT
  | TABLE_MAP_EVENT nat
  | QUERY_EVENT
  | WRITE_ROWS_EVENT_V1 nat
  | UPDATE_ROWS_EVENT_V1 nat
  | DELETE_ROWS_EVENT_V1 nat
  | OTHER_EVENT

text \<open>Decimal digits, as \<^verbatim>\<open>operator<<\<close> prints an unsigned number.\<close>

function show_nat :: "nat \<Rightarrow> string" where
  "show_nat n =
     (if n < 10 then [''0123456789'' ! n]
      else show_nat (n div 10) @ [''0123456789'' ! (n mod 10)])"
  by pat_completeness auto
termination
  by (relation "measure (\<lambda>n. n)") auto

definition to_gtid_string :: "nat \<Rightarrow> nat \<Rightarrow> nat \<Rightarrow> string" where
  "to_gtid_string domain_id server_id sequence_nr =
     show_nat domain_id @ ''-'' @ show_nat server_id @ ''-'' @ show_nat sequence_nr"

text \<open>
  Modelled from the spec: the class \<^verbatim>\<open>Table\<close> is declared in a header that is not among
  the sources. A table descriptor takes row events "for in-order processing"
  (\<^verbatim>\<open>enqueue\<close>) and flushes what is queued (\<^verbatim>\<open>process\<close>).
\<close>

record table =
  queued :: "rpl_event list"
  flushed :: "rpl_event list"

definition table_enqueue :: "rpl_event \<Rightarrow> table \<Rightarrow> table" where
  "table_enqueue ev t = t\<lparr>queued := queued t @ [ev]\<rparr>"

definition table_process :: "table \<Rightarrow> table" where
  "table_process t = t\<lparr>queued := [], flushed := flushed t @ queued t\<rparr>"

text \<open>
  The members of \<^verbatim>\<open>Replicator::Imp\<close>. \<^verbatim>\<open>m_sql\<close> is the connection (\<open>None\<close> when the
  pointer is empty). \<^verbatim>\<open>m_tables\<close> maps a table id to a \<^verbatim>\<open>unique_ptr<Table>\<close>: an
  association list whose values are \<open>None\<close> for an empty pointer.
\<close>

record replicator =
  m_sql :: "nat option"
  m_running :: bool
  m_error :: string
  m_gtid :: string
  m_current_gtid :: string
  m_tables :: "(nat \<times> table option) list"

datatype rpl_fault = NullDereference

text \<open>\<^verbatim>\<open>t.second->process()\<close> for every entry of the map; an empty pointer cannot be
  dereferenced.\<close>

fun process_all :: "(nat \<times> table option) list \<Rightarrow> rpl_fault + (nat \<times> table option) list" where
  "process_all [] = Inr []"
| "process_all ((k, None) # ts) = Inl NullDereference"
| "process_all ((k, Some t) # ts) =
     (case process_all ts of
        Inl f \<Rightarrow> Inl f
      | Inr ts' \<Rightarrow> Inr ((k, Some (table_process t)) # ts'))"

text \<open>
  \<^verbatim>\<open>process_one_event\<close>. \<^verbatim>\<open>Table::open\<close> is a parameter (it may return an empty
  pointer). \<^verbatim>\<open>m_tables[id]\<close> on an id that is not in the map inserts an empty pointer,
  which \<^verbatim>\<open>->enqueue\<close> then dereferences.
\<close>

definition process_one_event ::
  "(rpl_event \<Rightarrow> table option) \<Rightarrow> replicator \<Rightarrow> rpl_event \<Rightarrow> rpl_fault + replicator" where
  "process_one_event table_open st event =
     (case event of
        GTID_EVENT domain_id server_id sequence_nr \<Rightarrow>
          Inr (st\<lparr>m_current_gtid := to_gtid_string domain_id server_id sequence_nr\<rparr>)
      | XID_EVENT \<Rightarrow> Inr (st\<lparr>m_gtid := m_current_gtid st\<rparr>)
      | TABLE_MAP_EVENT table_id \<Rightarrow>
          Inr (st\<lparr>m_tables := AList.update table_id (table_open event) (m_tables st)\<rparr>)
      | QUERY_EVENT \<Rightarrow>
          (case process_all (m_tables st) of
             Inl f \<Rightarrow> Inl f
           | Inr ts \<Rightarrow> Inr (st\<lparr>m_tables := ts\<rparr>))
      | WRITE_ROWS_EVENT_V1 table_id \<Rightarrow>
          (case map_of (m_tables st) table_id of
             None \<Rightarrow> Inl NullDereference
           | Some None \<Rightarrow> Inl NullDereference
           | Some (Some t) \<Rightarrow>
               Inr (st\<lparr>m_tables :=
                      AList.update table_id (Some (table_enqueue event t)) (m_tables st)\<rparr>))
      | UPDATE_ROWS_EVENT_V1 table_id \<Rightarrow> Inr st
      | DELETE_ROWS_EVENT_V1 table_id \<Rightarrow> Inr st
      | OTHER_EVENT \<Rightarrow> Inr st)"

text \<open>
  What the database answers when \<^verbatim>\<open>connect\<close> is called without a connection:
  \<^verbatim>\<open>SQL::connect\<close> fails with a message, or gives a connection on which the preparatory
  queries fail, or on which the replication channel cannot be opened, or all succeed.
\<close>

datatype connect_outcome =
    ConnectFails string
  | QueryFails nat string
  | ReplicateFails nat string
  | Connected nat

definition connect_queries :: "replicator \<Rightarrow> string list" where
  "connect_queries st =
     [''SET @master_binlog_checksum = @@global.binlog_checksum'',
      ''SET @mariadb_slave_capability=4'',
      ''SET @slave_connect_state='' @ [CHR 0x27] @ m_gtid st @ [CHR 0x27],
      ''SET @slave_gtid_strict_mode=1'',
      ''SET @slave_gtid_ignore_duplicates=1'',
      ''SET NAMES latin1'']"

text \<open>\<^verbatim>\<open>connect\<close>: the value returned, the state, and the queries sent to the server.\<close>

definition connect :: "replicator \<Rightarrow> connect_outcome \<Rightarrow> bool \<times> replicator \<times> string list" where
  "connect st outcome =
     (case m_sql st of
        Some c \<Rightarrow> (True, st, [])
      | None \<Rightarrow>
          (case outcome of
             ConnectFails err \<Rightarrow> (False, st\<lparr>m_sql := None, m_error := err\<rparr>, [])
           | QueryFails c err \<Rightarrow>
               (False,
                st\<lparr>m_sql := None, m_error := ''Failed to prepare connection: '' @ err\<rparr>,
                connect_queries st)
           | ReplicateFails c err \<Rightarrow>
               (False,
                st\<lparr>m_sql := None,
                   m_error := ''Failed to open replication channel: '' @ err\<rparr>,
                connect_queries st)
           | Connected c \<Rightarrow> (True, st\<lparr>m_sql := Some c\<rparr>, connect_queries st)))"

text \<open>
  One turn of the loop of \<^verbatim>\<open>process_events\<close>, given what the database answers to
  \<^verbatim>\<open>connect\<close> and what \<^verbatim>\<open>fetch_event\<close> returns (\<open>None\<close> for no event). The result is
  the state and the queries sent in this turn.
\<close>

definition process_events_turn ::
  "(rpl_event \<Rightarrow> table option) \<Rightarrow> replicator \<Rightarrow> connect_outcome \<times> rpl_event option
     \<Rightarrow> rpl_fault + (replicator \<times> string list)" where
  "process_events_turn table_open st answer =
     (case connect st (fst answer) of
        (False, st1, sent) \<Rightarrow> Inr (st1, sent)
      | (True, st1, sent) \<Rightarrow>
          (case snd answer of
             Some event \<Rightarrow>
               (case process_one_event table_open st1 event of
                  Inl f \<Rightarrow> Inl f
                | Inr st2 \<Rightarrow> Inr (st2, sent))
           | None \<Rightarrow> Inr (st1\<lparr>m_sql := None\<rparr>, sent)))"

text \<open>
  \<^verbatim>\<open>process_events\<close>: the loop runs while \<^verbatim>\<open>m_running\<close> is set, which only \<^verbatim>\<open>stop\<close>
  clears; it is run here over the list of answers of the database, one for each turn.
\<close>

fun process_events ::
  "(rpl_event \<Rightarrow> table option) \<Rightarrow> replicator \<Rightarrow> (connect_outcome \<times> rpl_event option) list
     \<Rightarrow> rpl_fault + (replicator \<times> string list)" where
  "process_events table_open st [] = Inr (st, [])"
| "process_events table_open st (answer # answers) =
     (if \<not> m_running st then Inr (st, [])
      else case process_events_turn table_open st answer of
             Inl f \<Rightarrow> Inl f
           | Inr (st1, sent) \<Rightarrow>
               (case process_events table_open st1 answers of
                  Inl f \<Rightarrow> Inl f
                | Inr (st2, sent2) \<Rightarrow> Inr (st2, sent @ sent2)))"

text \<open>A sequence of events handled one after the other on one connection.\<close>

fun process_stream ::
  "(rpl_event \<Rightarrow> table option) \<Rightarrow> replicator \<Rightarrow> rpl_event list \<Rightarrow> rpl_fault + replicator" where
  "process_stream table_open st [] = Inr st"
| "process_stream table_open st (event # events) =
     (case process_one_event table_open st event of
        Inl f \<Rightarrow> Inl f
      | Inr st1 \<Rightarrow> process_stream table_open st1 events)"

text \<open>The processor as its constructor leaves it: running, no connection, empty strings,
  no table.\<close>

definition new_replicator :: replicator where
  "new_replicator =
     \<lparr>m_sql = None, m_running = True, m_error = [], m_gtid = [], m_current_gtid = [],
      m_tables = []\<rparr>"

text \<open>Scenario 4 of the specification: committed cursor \<^verbatim>\<open>1-101-42\<close>, a connection, a
  table map for table 7; then the transaction \<^verbatim>\<open>1-101-43\<close> begins, a row event
  arrives, the source disconnects and the processor connects again.\<close>

definition scenario_replicator :: replicator where
  "scenario_replicator =
     \<lparr>m_sql = Some 1, m_running = True, m_error = [], m_gtid = ''1-101-42'',
      m_current_gtid = ''1-101-42'',
      m_tables = [(7, Some \<lparr>queued = [], flushed = []\<rparr>)]\<rparr>"

definition scenario_answers :: "(connect_outcome \<times> rpl_event option) list" where
  "scenario_answers =
     [(Connected 1, Some (GTID_EVENT 1 101 43)),
      (Connected 1, Some (WRITE_ROWS_EVENT_V1 7)),
      (Connected 1, None),
      (Connected 2, Some OTHER_EVENT)]"

section \<open>Monitor\<close>

subsection \<open>Monitored servers and the monitor\<close>

type_synonym byte = "8 word"

datatype status_request_t =
  NO_CHANGE | MAINT_OFF | MAINT_ON | BEING_DRAINED_OFF | BEING_DRAINED_ON

datatype monitor_state_t =
  MONITOR_STATE_RUNNING | MONITOR_STATE_STOPPING | MONITOR_STATE_STOPPED

datatype check_status_flag_t = STATUS_FLAG_NOCHECK | STATUS_FLAG_CHECK

datatype log_entry = LogError string | LogWarning string | LogNotice string

text \<open>
  One \<^verbatim>\<open>MXS_MONITORED_SERVER\<close> together with the fields of its \<^verbatim>\<open>SERVER\<close> that the
  monitor uses: \<open>server\<close> stands for the pointer \<^verbatim>\<open>ptr->server\<close>, \<open>srv_name\<close> for the
  bytes of \<^verbatim>\<open>server->name()\<close> (a C string, so without a zero byte), \<open>srv_status\<close> for
  \<^verbatim>\<open>server->status\<close> and \<open>last_event\<close> for \<^verbatim>\<open>server->last_event\<close>. A monitor
  lists a server once, so each entry carries the fields of its own \<^verbatim>\<open>SERVER\<close>.
\<close>

record monitored_server =
  server :: nat
  srv_name :: "byte list"
  srv_status :: status_t
  last_event :: mxs_monitor_event_t
  mon_prev_status :: status_t
  pending_status :: status_t
  status_request :: status_request_t
  mon_err_count :: nat

text \<open>
  The monitor. \<open>m_master\<close> is the position in \<open>m_servers\<close> of the server \<^verbatim>\<open>m_master\<close>
  points to. \<open>m_ticks\<close> is the 64-bit tick counter, which does not wrap in any run that
  can happen. What the monitor does to the outside is recorded: the log, the journal file
  (\<open>None\<close> while there is none), the servers whose client connections were hung up, and
  the events for which the script was launched.
\<close>

record monitor =
  m_state :: monitor_state_t
  m_servers :: "monitored_server list"
  check_status_flag :: check_status_flag_t
  m_ticks :: nat
  m_master :: "nat option"
  m_events :: "mxs_monitor_event_t set"
  m_script :: string
  m_journal_hash :: "byte list"
  journal_file :: "byte list option"
  mon_log :: "log_entry list"
  hangups :: "nat list"
  launched :: "(nat \<times> mxs_monitor_event_t) list"

text \<open>
  \<^verbatim>\<open>SERVER::set_status\<close> and \<^verbatim>\<open>SERVER::clear_status\<close> are defined outside the sources.
  Modelled from the spec: they set and clear status bits, as their uses with the single
  bits MAINT and DRAINING require.
\<close>

definition set_status :: "status_t \<Rightarrow> monitored_server \<Rightarrow> monitored_server" where
  "set_status bits ms = ms\<lparr>srv_status := srv_status ms OR bits\<rparr>"

definition clear_status :: "status_t \<Rightarrow> monitored_server \<Rightarrow> monitored_server" where
  "clear_status bits ms = ms\<lparr>srv_status := srv_status ms AND NOT bits\<rparr>"

text \<open>Modelled from the spec: a server is in maintenance when MAINT is set, down when
  RUNNING is not; the methods are declared in the server header.\<close>

definition is_in_maint :: "monitored_server \<Rightarrow> bool" where
  "is_in_maint ms = (srv_status ms AND SERVER_MAINT \<noteq> 0)"

definition is_down :: "monitored_server \<Rightarrow> bool" where
  "is_down ms = (srv_status ms AND SERVER_RUNNING = 0)"

text \<open>Modelled from the spec (step 7 of the tick): a server is unusable when it is "not
  running OR not in-cluster"; \<^verbatim>\<open>is_usable\<close> is running and out of maintenance,
  \<^verbatim>\<open>is_in_cluster\<close> is one of the role bits.\<close>

definition is_usable :: "monitored_server \<Rightarrow> bool" where
  "is_usable ms = (srv_status ms AND (SERVER_RUNNING OR SERVER_MAINT) = SERVER_RUNNING)"

definition is_in_cluster :: "monitored_server \<Rightarrow> bool" where
  "is_in_cluster ms = (srv_status ms AND server_type_bits \<noteq> 0)"

text \<open>\<^verbatim>\<open>mon_get_monitored_server\<close>: the first monitored server of the given \<^verbatim>\<open>SERVER\<close>.\<close>

fun find_monitored_server :: "nat \<Rightarrow> monitored_server list \<Rightarrow> nat \<Rightarrow> nat option" where
  "find_monitored_server search_server [] i = None"
| "find_monitored_server search_server (ms # mss) i =
     (if server ms = search_server then Some i
      else find_monitored_server search_server mss (Suc i))"

definition mon_get_monitored_server :: "monitor \<Rightarrow> nat \<Rightarrow> nat option" where
  "mon_get_monitored_server mon search_server =
     find_monitored_server search_server (m_servers mon) 0"

subsection \<open>Status changes requested by the administrator\<close>

definition ERR_CANNOT_MODIFY :: string where
  "ERR_CANNOT_MODIFY =
     ''The server is monitored, so only the maintenance status can be ''
     @ ''set/cleared manually. Status was not modified.''"

definition WRN_REQUEST_OVERWRITTEN :: string where
  "WRN_REQUEST_OVERWRITTEN =
     ''Previous maintenance request was not yet read by the monitor and was overwritten.''"

text \<open>
  \<^verbatim>\<open>Monitor::set_server_status\<close>. \<^verbatim>\<open>errmsg_out\<close> is \<open>None\<close> for a null pointer, else
  the string it points to. The result is the value returned, the string behind
  \<^verbatim>\<open>errmsg_out\<close>, and the monitor. \<^verbatim>\<open>mxb_assert\<close> is compiled out of release builds.
\<close>

definition set_server_status ::
  "monitor \<Rightarrow> nat \<Rightarrow> status_t \<Rightarrow> string option \<Rightarrow> bool \<times> string option \<times> monitor" where
  "set_server_status mon srv bits errmsg_out =
     (case mon_get_monitored_server mon srv of
        None \<Rightarrow>
          (False, errmsg_out,
           mon\<lparr>mon_log := mon_log mon
                  @ [LogError ''Monitor requested to set status of server that it does not monitor.'']\<rparr>)
      | Some i \<Rightarrow>
          if m_state mon = MONITOR_STATE_RUNNING
          then
            (if bits AND NOT (SERVER_MAINT OR SERVER_BEING_DRAINED) \<noteq> 0
             then (False,
                   (case errmsg_out of None \<Rightarrow> None | Some s \<Rightarrow> Some ERR_CANNOT_MODIFY),
                   mon\<lparr>mon_log := mon_log mon @ [LogError ERR_CANNOT_MODIFY]\<rparr>)
             else
               let request = (if bits AND SERVER_MAINT \<noteq> 0 then MAINT_ON
                              else BEING_DRAINED_ON);
                   previous_request = status_request (m_servers mon ! i)
               in (True, errmsg_out,
                   mon\<lparr>m_servers := (m_servers mon)
                           [i := (m_servers mon ! i)\<lparr>status_request := request\<rparr>],
                        check_status_flag := STATUS_FLAG_CHECK,
                        mon_log := mon_log mon
                          @ (if previous_request \<noteq> NO_CHANGE
                             then [LogWarning WRN_REQUEST_OVERWRITTEN] else [])\<rparr>))
          else
            (True, errmsg_out,
             mon\<lparr>m_servers := (m_servers mon)[i := set_status bits (m_servers mon ! i)]\<rparr>))"

text \<open>\<^verbatim>\<open>Monitor::clear_server_status\<close>.\<close>

definition clear_server_status ::
  "monitor \<Rightarrow> nat \<Rightarrow> status_t \<Rightarrow> string option \<Rightarrow> bool \<times> string option \<times> monitor" where
  "clear_server_status mon srv bits errmsg_out =
     (case mon_get_monitored_server mon srv of
        None \<Rightarrow>
          (False, errmsg_out,
           mon\<lparr>mon_log := mon_log mon
                  @ [LogError ''Monitor requested to clear status of server that it does not monitor.'']\<rparr>)
      | Some i \<Rightarrow>
          if m_state mon = MONITOR_STATE_RUNNING
          then
            (if bits AND NOT (SERVER_MAINT OR SERVER_BEING_DRAINED) \<noteq> 0
             then (False,
                   (case errmsg_out of None \<Rightarrow> None | Some s \<Rightarrow> Some ERR_CANNOT_MODIFY),
                   mon\<lparr>mon_log := mon_log mon @ [LogError ERR_CANNOT_MODIFY]\<rparr>)
             else
               let request = (if bits AND SERVER_MAINT \<noteq> 0 then MAINT_OFF
                              else BEING_DRAINED_OFF);
                   previous_request = status_request (m_servers mon ! i)
               in (True, errmsg_out,
                   mon\<lparr>m_servers := (m_servers mon)
                           [i := (m_servers mon ! i)\<lparr>status_request := request\<rparr>],
                        check_status_flag := STATUS_FLAG_CHECK,
                        mon_log := mon_log mon
                          @ (if previous_request \<noteq> NO_CHANGE
                             then [LogWarning WRN_REQUEST_OVERWRITTEN] else [])\<rparr>))
          else
            (True, errmsg_out,
             mon\<lparr>m_servers := (m_servers mon)[i := clear_status bits (m_servers mon ! i)]\<rparr>))"

text \<open>The sentence the specification quotes for the error.\<close>

definition spec_cannot_modify :: string where
  "spec_cannot_modify =
     ''the server is monitored, so only the maintenance status can be set/cleared manually''"

subsection \<open>An example monitor\<close>

definition example_server :: "nat \<Rightarrow> byte list \<Rightarrow> status_t \<Rightarrow> monitored_server" where
  "example_server p name st =
     \<lparr>server = p, srv_name = name, srv_status = st, last_event = UNDEFINED_EVENT,
      mon_prev_status = st, pending_status = st, status_request = NO_CHANGE,
      mon_err_count = 0\<rparr>"

text \<open>Two servers named "A" and "B", the master A and the slave B, in a running monitor.\<close>

definition example_monitor :: monitor where
  "example_monitor =
     \<lparr>m_state = MONITOR_STATE_RUNNING,
      m_servers = [example_server 100 [0x41] (SERVER_RUNNING OR SERVER_MASTER),
                   example_server 200 [0x42] (SERVER_RUNNING OR SERVER_SLAVE)],
      check_status_flag = STATUS_FLAG_NOCHECK, m_ticks = 0, m_master = Some 0,
      m_events = UNIV, m_script = [], m_journal_hash = [], journal_file = None,
      mon_log = [], hangups = [], launched = []\<rparr>"

subsection \<open>The journal\<close>

text \<open>
  \<^verbatim>\<open>mxs_set_byte4\<close>, \<^verbatim>\<open>mxs_get_byte4\<close>, \<^verbatim>\<open>maxscale::set_byteN\<close> and
  \<^verbatim>\<open>maxscale::get_byteN\<close> are defined outside the sources. Modelled from the spec: the
  numbers of the journal are little-endian, byte \<open>i\<close> holding the bits \<open>8 * i\<close> to
  \<open>8 * i + 7\<close>.
\<close>

definition set_bytes :: "'a::len word \<Rightarrow> nat \<Rightarrow> byte list" where
  "set_bytes v n = map (\<lambda>i. ucast (drop_bit (8 * i) v)) [0..<n]"

definition get_bytes :: "byte list \<Rightarrow> nat \<Rightarrow> 'a::len word" where
  "get_bytes bs n = foldr (\<lambda>b acc. ucast b OR push_bit 8 acc) (take n bs) 0"

definition mxs_set_byte4 :: "32 word \<Rightarrow> byte list" where
  "mxs_set_byte4 v = set_bytes v 4"

definition mxs_get_byte4 :: "byte list \<Rightarrow> 32 word" where
  "mxs_get_byte4 bs = get_bytes bs 4"

definition set_byteN :: "64 word \<Rightarrow> nat \<Rightarrow> byte list" where
  "set_byteN v n = set_bytes v n"

definition get_byteN :: "byte list \<Rightarrow> nat \<Rightarrow> 64 word" where
  "get_byteN bs n = get_bytes bs n"

definition MMB_SCHEMA_VERSION :: byte where "MMB_SCHEMA_VERSION = 2"
definition MMB_LEN_BYTES :: nat where "MMB_LEN_BYTES = 4"
definition MMB_LEN_SCHEMA_VERSION :: nat where "MMB_LEN_SCHEMA_VERSION = 1"
definition MMB_LEN_CRC32 :: nat where "MMB_LEN_CRC32 = 4"
definition MMB_LEN_VALUE_TYPE :: nat where "MMB_LEN_VALUE_TYPE = 1"
definition MMB_LEN_SERVER_STATUS :: nat where "MMB_LEN_SERVER_STATUS = 8"
definition SVT_SERVER :: byte where "SVT_SERVER = 1"
definition SVT_MASTER :: byte where "SVT_MASTER = 2"

text \<open>What \<^verbatim>\<open>store_data\<close> writes for one server, and for the master.\<close>

definition server_record :: "monitored_server \<Rightarrow> byte list" where
  "server_record db =
     [SVT_SERVER] @ srv_name db @ [0] @ set_byteN (srv_status db) MMB_LEN_SERVER_STATUS"

definition master_record :: "monitored_server \<Rightarrow> byte list" where
  "master_record m = [SVT_MASTER] @ srv_name m @ [0]"

text \<open>
  \<^verbatim>\<open>store_data\<close>: the buffer after the call. \<^verbatim>\<open>crc32\<close> is zlib's, a parameter here. It is
  computed over \<open>size - 4\<close> bytes from offset 4 of what has been written.
\<close>

definition store_data ::
  "(byte list \<Rightarrow> 32 word) \<Rightarrow> monitor \<Rightarrow> nat option \<Rightarrow> 32 word \<Rightarrow> byte list" where
  "store_data crc32 monitor master sz =
     (let written =
            mxs_set_byte4 sz @ [MMB_SCHEMA_VERSION]
            @ concat (map server_record (m_servers monitor))
            @ (case master of
                 None \<Rightarrow> []
               | Some m \<Rightarrow> master_record (m_servers monitor ! m));
          crc = crc32 (take (unat (sz - of_nat MMB_LEN_CRC32)) (drop MMB_LEN_BYTES written))
      in written @ mxs_set_byte4 crc)"

text \<open>The size \<^verbatim>\<open>store_server_journal\<close> computes, before it is cut to 32 bits.\<close>

definition journal_size :: "monitor \<Rightarrow> nat option \<Rightarrow> nat" where
  "journal_size monitor master =
     MMB_LEN_SCHEMA_VERSION + MMB_LEN_CRC32
     + (\<Sum>db \<leftarrow> m_servers monitor.
          MMB_LEN_VALUE_TYPE + length (srv_name db) + 1 + MMB_LEN_SERVER_STATUS)
     + (case master of
          None \<Rightarrow> 0
        | Some m \<Rightarrow> MMB_LEN_VALUE_TYPE + length (srv_name (m_servers monitor ! m)) + 1)"

text \<open>What can go wrong outside the program when the journal is written.\<close>

datatype journal_io = IoOk | MallocFails | OpenFails | WriteFails | RenameFails

text \<open>
  \<^verbatim>\<open>store_server_journal\<close>. \<^verbatim>\<open>SHA1\<close> is a parameter; it is taken over the first \<open>size\<close>
  bytes of the buffer. The file is replaced only when the hash differs from the stored one
  and writing and renaming succeed. The model is the code while the size fits 32 bits.
\<close>

definition store_server_journal ::
  "(byte list \<Rightarrow> 32 word) \<Rightarrow> (byte list \<Rightarrow> byte list) \<Rightarrow> journal_io \<Rightarrow> monitor \<Rightarrow> nat option
     \<Rightarrow> monitor" where
  "store_server_journal crc32 SHA1 io monitor master =
     (let sz = (of_nat (journal_size monitor master) :: 32 word)
      in if io = MallocFails then monitor
         else
           let data = store_data crc32 monitor master sz;
               hash = SHA1 (take (unat sz) data)
           in if m_journal_hash monitor = hash then monitor
              else if io = OpenFails
              then monitor\<lparr>mon_log := mon_log monitor @ [LogError ''Failed to open file'']\<rparr>
              else if io = WriteFails
              then monitor\<lparr>mon_log := mon_log monitor
                     @ [LogError ''Failed to write journal data to disk'']\<rparr>
              else if io = RenameFails
              then monitor\<lparr>mon_log := mon_log monitor
                     @ [LogError ''Failed to rename journal file'']\<rparr>
              else monitor\<lparr>m_journal_hash := hash, journal_file := Some data\<rparr>)"

datatype journal_fault = OutOfBoundsRead

text \<open>\<^verbatim>\<open>strlen\<close> of the C string at the start of the bytes.\<close>

definition strlen :: "byte list \<Rightarrow> nat" where
  "strlen data = length (takeWhile (\<lambda>b. b \<noteq> 0) data)"

text \<open>The first monitored server of the given name (\<^verbatim>\<open>strcmp(db->server->name(), data) == 0\<close>).\<close>

fun find_named :: "byte list \<Rightarrow> monitored_server list \<Rightarrow> nat \<Rightarrow> nat option" where
  "find_named name [] i = None"
| "find_named name (db # dbs) i =
     (if srv_name db = name then Some i else find_named name dbs (Suc i))"

text \<open>
  \<^verbatim>\<open>process_server\<close>, without the advance of the pointer: \<open>data\<close> are the bytes from the
  name to the checksum, \<open>trailer\<close> the bytes of the buffer after them. The status is read
  only for a server the monitor has; reading past the buffer is a fault.
\<close>

definition process_server ::
  "monitored_server list \<Rightarrow> byte list \<Rightarrow> byte list \<Rightarrow> journal_fault + monitored_server list"
where
  "process_server servers data trailer =
     (case find_named (takeWhile (\<lambda>b. b \<noteq> 0) data) servers 0 of
        None \<Rightarrow> Inr servers
      | Some i \<Rightarrow>
          let sptr = drop (strlen data + 1) data @ trailer
          in if length sptr < MMB_LEN_SERVER_STATUS then Inl OutOfBoundsRead
             else
               let st = get_byteN sptr MMB_LEN_SERVER_STATUS;
                   db = servers ! i
               in Inr (servers[i := db\<lparr>mon_prev_status := st,
                                       srv_status := srv_status db OR st,
                                       pending_status := pending_status db OR st\<rparr>]))"

text \<open>\<^verbatim>\<open>process_master\<close>, without the advance of the pointer.\<close>

definition process_master ::
  "monitored_server list \<Rightarrow> nat option \<Rightarrow> byte list \<Rightarrow> nat option" where
  "process_master servers master data =
     (case find_named (takeWhile (\<lambda>b. b \<noteq> 0) data) servers 0 of
        None \<Rightarrow> master
      | Some i \<Rightarrow> Some i)"

text \<open>
  \<^verbatim>\<open>process_data_file\<close>: the loop over the bytes from \<^verbatim>\<open>ptr\<close> to \<^verbatim>\<open>crc_ptr\<close>. The result is
  the value returned with the servers, the master and the messages logged; what was
  applied before a corrupt record stays applied.
\<close>

function process_data_file ::
  "monitored_server list \<Rightarrow> nat option \<Rightarrow> byte list \<Rightarrow> byte list
     \<Rightarrow> journal_fault + (bool \<times> monitored_server list \<times> nat option \<times> log_entry list)" where
  "process_data_file servers master data trailer =
     (if data = [] then Inr (True, servers, master, [])
      else if 0 \<notin> set data
      then Inr (False, servers, master,
                [LogError ''Possible corrupted journal file (no null terminator found). Ignoring.''])
      else if hd data = SVT_SERVER
      then (case process_server servers (tl data) trailer of
              Inl f \<Rightarrow> Inl f
            | Inr servers' \<Rightarrow>
                process_data_file servers' master
                  (drop (strlen (tl data) + 1 + MMB_LEN_SERVER_STATUS) (tl data)) trailer)
      else if hd data = SVT_MASTER
      then process_data_file servers (process_master servers master (tl data))
             (drop (strlen (tl data) + 1) (tl data)) trailer
      else Inr (False, servers, master,
                [LogError ''Possible corrupted journal file (unknown stored value). Ignoring.'']))"
  by pat_completeness auto
termination
  by (relation "measure (\<lambda>(servers, master, data, trailer). length data)") auto

declare process_data_file.simps [simp del]

text \<open>
  \<^verbatim>\<open>load_server_journal\<close>, on the bytes of the journal file (\<open>None\<close> when there is no
  file to open). The length is read as the little-endian number it was written as. Whether
  \<^verbatim>\<open>MXS_MALLOC\<close> succeeds is a parameter. A size below the five bytes of version and
  checksum makes the code read outside the buffer.
\<close>

definition load_server_journal ::
  "(byte list \<Rightarrow> 32 word) \<Rightarrow> bool \<Rightarrow> monitor \<Rightarrow> journal_fault + monitor" where
  "load_server_journal crc32 malloc_ok monitor =
     (case journal_file monitor of
        None \<Rightarrow> Inr monitor
      | Some file \<Rightarrow>
          if length file < MMB_LEN_BYTES
          then Inr (monitor\<lparr>mon_log := mon_log monitor
                      @ [LogError ''Failed to read journal file length'']\<rparr>)
          else
            let sz = unat (mxs_get_byte4 file);
                rest = drop MMB_LEN_BYTES file
            in if \<not> malloc_ok then Inr monitor
               else if length rest < sz
               then Inr (monitor\<lparr>mon_log := mon_log monitor
                           @ [LogError ''Failed to read journal file'']\<rparr>)
               else
                 let data = take sz rest
                 in if sz = 0 then Inl OutOfBoundsRead
                    else if hd data \<noteq> MMB_SCHEMA_VERSION
                    then Inr (monitor\<lparr>mon_log := mon_log monitor
                                @ [LogError ''Unknown journal schema version'']\<rparr>)
                    else if sz < MMB_LEN_CRC32 then Inl OutOfBoundsRead
                    else if crc32 (take (sz - MMB_LEN_CRC32) data)
                            \<noteq> mxs_get_byte4 (drop (sz - MMB_LEN_CRC32) data)
                    then Inr (monitor\<lparr>mon_log := mon_log monitor
                                @ [LogError ''CRC32 mismatch in journal file. Ignoring.'']\<rparr>)
                    else
                      (case process_data_file (m_servers monitor) (m_master monitor)
                              (drop MMB_LEN_SCHEMA_VERSION (take (sz - MMB_LEN_CRC32) data))
                              (drop (sz - MMB_LEN_CRC32) data) of
                         Inl f \<Rightarrow> Inl f
                       | Inr (ok, servers, master, msgs) \<Rightarrow>
                           Inr (monitor\<lparr>m_servers := servers, m_master := master,
                                  mon_log := mon_log monitor @ msgs
                                    @ (if ok
                                       then [LogNotice ''Loaded server states from journal file'']
                                       else [])\<rparr>)))"

text \<open>
  A valid state of a monitor for the journal: the names of the servers are C strings (no
  zero byte) and pairwise different, the master is one of the servers, and the size of the
  journal fits the 32 bits of its length field.
\<close>

definition valid_journal_state :: "monitor \<Rightarrow> bool" where
  "valid_journal_state monitor \<longleftrightarrow>
     distinct (map srv_name (m_servers monitor))
     \<and> (\<forall>db \<in> set (m_servers monitor). 0 \<notin> set (srv_name db))
     \<and> (case m_master monitor of None \<Rightarrow> True | Some m \<Rightarrow> m < length (m_servers monitor))
     \<and> journal_size monitor (m_master monitor) < 2 ^ 32"

text \<open>The journal file \<^verbatim>\<open>store_server_journal\<close> writes for a monitor.\<close>

definition journal_of :: "(byte list \<Rightarrow> 32 word) \<Rightarrow> monitor \<Rightarrow> byte list" where
  "journal_of crc32 monitor =
     store_data crc32 monitor (m_master monitor)
       (of_nat (journal_size monitor (m_master monitor)))"

text \<open>The hash \<^verbatim>\<open>store_server_journal\<close> computes for a monitor: \<^verbatim>\<open>SHA1\<close> over the first
  \<open>size\<close> bytes of the buffer.\<close>

definition journal_hash ::
  "(byte list \<Rightarrow> 32 word) \<Rightarrow> (byte list \<Rightarrow> byte list) \<Rightarrow> monitor \<Rightarrow> byte list" where
  "journal_hash crc32 SHA1 monitor =
     SHA1 (take (journal_size monitor (m_master monitor)) (journal_of crc32 monitor))"

text \<open>The bytes of the journal that the checksum covers: the schema version and the
  records.\<close>

definition journal_body :: "monitor \<Rightarrow> byte list" where
  "journal_body monitor =
     MMB_SCHEMA_VERSION # concat (map server_record (m_servers monitor))
     @ (case m_master monitor of
          None \<Rightarrow> []
        | Some m \<Rightarrow> master_record (m_servers monitor ! m))"

text \<open>The monitor after a restart, before the journal is loaded: the same servers with no
  flag set and no master, and the journal file on disk.\<close>

definition restarted :: "byte list \<Rightarrow> monitor \<Rightarrow> monitor" where
  "restarted file monitor =
     monitor\<lparr>m_servers := map (\<lambda>db. db\<lparr>srv_status := 0, mon_prev_status := 0,
                                         pending_status := 0\<rparr>) (m_servers monitor),
             m_master := None, journal_file := Some file\<rparr>"

text \<open>A checksum for the examples: the sum of the bytes. (Any function can stand for
  \<^verbatim>\<open>crc32\<close> in what follows.)\<close>

definition byte_sum :: "byte list \<Rightarrow> 32 word" where
  "byte_sum bs = foldl (\<lambda>acc b. acc + ucast b) 0 bs"

text \<open>What \<^verbatim>\<open>process_server\<close> does to the server it finds: the stored status becomes the
  previous status and is added to the status and to the pending status.\<close>

definition load_status :: "status_t \<Rightarrow> monitored_server \<Rightarrow> monitored_server" where
  "load_status st db =
     db\<lparr>mon_prev_status := st, srv_status := srv_status db OR st,
        pending_status := pending_status db OR st\<rparr>"

definition apply_server_record ::
  "monitored_server list \<Rightarrow> monitored_server \<Rightarrow> monitored_server list" where
  "apply_server_record servers stored =
     (case find_named (srv_name stored) servers 0 of
        None \<Rightarrow> servers
      | Some i \<Rightarrow> servers[i := load_status (srv_status stored) (servers ! i)])"

text \<open>The example monitor stopped, after the administrator has made A a slave and B the
  master (a stopped monitor lets every status bit be set and cleared).\<close>

definition stopped_monitor :: monitor where
  "stopped_monitor =
     example_monitor
       \<lparr>m_state := MONITOR_STATE_STOPPED,
        m_servers := [example_server 100 [0x41] (SERVER_RUNNING OR SERVER_SLAVE),
                      example_server 200 [0x42] (SERVER_RUNNING OR SERVER_MASTER)],
        m_master := Some 1\<rparr>"

subsection \<open>One tick of the monitor\<close>

text \<open>\<^verbatim>\<open>monitor_check_maintenance_requests\<close>: the request of one server is exchanged for
  \<^verbatim>\<open>NO_CHANGE\<close> and applied to the status of the server.\<close>

definition apply_status_request :: "monitored_server \<Rightarrow> monitored_server" where
  "apply_status_request ptr =
     (case status_request ptr of
        MAINT_ON \<Rightarrow> set_status SERVER_MAINT (ptr\<lparr>status_request := NO_CHANGE\<rparr>)
      | MAINT_OFF \<Rightarrow> clear_status SERVER_MAINT (ptr\<lparr>status_request := NO_CHANGE\<rparr>)
      | BEING_DRAINED_ON \<Rightarrow>
          set_status SERVER_BEING_DRAINED (ptr\<lparr>status_request := NO_CHANGE\<rparr>)
      | BEING_DRAINED_OFF \<Rightarrow>
          clear_status SERVER_BEING_DRAINED (ptr\<lparr>status_request := NO_CHANGE\<rparr>)
      | NO_CHANGE \<Rightarrow> ptr\<lparr>status_request := NO_CHANGE\<rparr>)"

definition monitor_check_maintenance_requests :: "monitor \<Rightarrow> monitor" where
  "monitor_check_maintenance_requests monitor =
     (let flags_changed = check_status_flag monitor;
          monitor1 = monitor\<lparr>check_status_flag := STATUS_FLAG_NOCHECK\<rparr>
      in if flags_changed \<noteq> STATUS_FLAG_NOCHECK
         then monitor1\<lparr>m_servers := map apply_status_request (m_servers monitor1)\<rparr>
         else monitor1)"

text \<open>
  What a probe of a server finds. After a successful \<^verbatim>\<open>ping_or_connect\<close> the disk-space
  check and the module's \<^verbatim>\<open>update_server_status\<close> (a pure virtual function) work on the
  pending status; what they make of it is the function carried by \<open>ConnectionOk\<close>. A
  failed connection was refused for the credentials (\<^verbatim>\<open>ER_ACCESS_DENIED_ERROR\<close>) or not.
\<close>

datatype probe_result = ConnectionOk "status_t \<Rightarrow> status_t" | ConnectionFailed bool

definition monitor_set_pending_status :: "status_t \<Rightarrow> monitored_server \<Rightarrow> monitored_server"
where
  "monitor_set_pending_status bits ptr = ptr\<lparr>pending_status := pending_status ptr OR bits\<rparr>"

definition monitor_clear_pending_status ::
  "status_t \<Rightarrow> monitored_server \<Rightarrow> monitored_server" where
  "monitor_clear_pending_status bits ptr =
     ptr\<lparr>pending_status := pending_status ptr AND NOT bits\<rparr>"

text \<open>\<^verbatim>\<open>mon_print_fail_status\<close>: a failure is logged for a server that is down and has no
  error counted yet.\<close>

definition mon_print_fail_status :: "monitored_server \<Rightarrow> bool" where
  "mon_print_fail_status pMs = (is_down pMs \<and> mon_err_count pMs = 0)"

text \<open>The body of the loop of \<^verbatim>\<open>MonitorWorkerSimple::tick\<close> for one server: the server and
  what is logged. \<^verbatim>\<open>mon_log_connect_error\<close> words its message for a time-out or for a
  refusal; one entry stands for both. The debug message of \<^verbatim>\<open>SS_DEBUG\<close> builds is left out.\<close>

definition tick_server ::
  "(monitored_server \<Rightarrow> probe_result) \<Rightarrow> monitored_server
     \<Rightarrow> monitored_server \<times> log_entry list" where
  "tick_server probe pMs =
     (if \<not> is_in_maint pMs
      then
        let pMs1 = pMs\<lparr>mon_prev_status := srv_status pMs, pending_status := srv_status pMs\<rparr>;
            (pMs2, msgs) =
              (case probe pMs1 of
                 ConnectionOk update \<Rightarrow>
                   (let pMs' = monitor_set_pending_status SERVER_RUNNING
                                 (monitor_clear_pending_status SERVER_AUTH_ERROR pMs1)
                    in (pMs'\<lparr>pending_status := update (pending_status pMs')\<rparr>, []))
               | ConnectionFailed access_denied \<Rightarrow>
                   (let pMs' = monitor_clear_pending_status (NOT SERVER_WAS_MASTER) pMs1;
                        pMs'' = (if access_denied
                                 then monitor_set_pending_status SERVER_AUTH_ERROR pMs'
                                 else monitor_clear_pending_status SERVER_AUTH_ERROR pMs')
                    in (pMs'',
                        if mon_status_changed (mon_prev_status pMs'') (srv_status pMs'')
                           \<and> mon_print_fail_status pMs''
                        then [LogError ''Monitor was unable to connect to server'']
                        else [])))
        in (pMs2\<lparr>mon_err_count := (if is_down pMs2 then mon_err_count pMs2 + 1 else 0)\<rparr>,
            msgs)
      else (pMs, []))"

definition tick :: "(monitored_server \<Rightarrow> probe_result) \<Rightarrow> monitor \<Rightarrow> monitor" where
  "tick probe monitor =
     monitor\<lparr>m_servers := map (\<lambda>pMs. fst (tick_server probe pMs)) (m_servers monitor),
             mon_log := mon_log monitor
               @ concat (map (\<lambda>pMs. snd (tick_server probe pMs)) (m_servers monitor))\<rparr>"

text \<open>\<^verbatim>\<open>MonitorWorker::flush_server_status\<close>: the pending status becomes the status of
  every server out of maintenance.\<close>

definition flush_server_status :: "monitor \<Rightarrow> monitor" where
  "flush_server_status monitor =
     monitor\<lparr>m_servers :=
       map (\<lambda>pMs. if \<not> is_in_maint pMs then pMs\<lparr>srv_status := pending_status pMs\<rparr> else pMs)
         (m_servers monitor)\<rparr>"

text \<open>
  \<^verbatim>\<open>Monitor::detect_handle_state_changes\<close>: each changed server gets its event; the script
  is launched for the events of the mask; a master lost and a master gained in the same tick
  are reported as one switch.
\<close>

definition changed_event :: "monitored_server \<Rightarrow> mxs_monitor_event_t option" where
  "changed_event ptr =
     (if mon_status_changed (mon_prev_status ptr) (srv_status ptr)
      then Some (mon_get_event_type (mon_prev_status ptr) (srv_status ptr))
      else None)"

definition detect_handle_state_changes :: "monitor \<Rightarrow> monitor" where
  "detect_handle_state_changes monitor =
     (let events = map changed_event (m_servers monitor);
          master_down = (Some MASTER_DOWN_EVENT \<in> set events);
          master_up = (Some MASTER_UP_EVENT \<in> set events \<or> Some NEW_MASTER_EVENT \<in> set events)
      in monitor\<lparr>m_servers :=
                   map (\<lambda>ptr. case changed_event ptr of
                                 None \<Rightarrow> ptr
                               | Some event \<Rightarrow> ptr\<lparr>last_event := event\<rparr>)
                     (m_servers monitor),
                 launched := launched monitor
                   @ concat (map (\<lambda>(i, ptr). case changed_event ptr of
                                     None \<Rightarrow> []
                                   | Some event \<Rightarrow>
                                       if m_script monitor \<noteq> [] \<and> event \<in> m_events monitor
                                       then [(i, event)] else [])
                               (enumerate 0 (m_servers monitor))),
                 mon_log := mon_log monitor
                   @ concat (map (\<lambda>ptr. case changed_event ptr of
                                     None \<Rightarrow> []
                                   | Some event \<Rightarrow> [LogNotice ''Server changed state''])
                               (m_servers monitor))
                   @ (if master_down \<and> master_up
                      then [LogNotice ''Master switch detected: lost a master and gained a new one'']
                      else [])\<rparr>)"

text \<open>\<^verbatim>\<open>mon_hangup_failed_servers\<close>: the client connections of a changed server that is not
  usable or not in the cluster are hung up.\<close>

definition mon_hangup_failed_servers :: "monitor \<Rightarrow> monitor" where
  "mon_hangup_failed_servers monitor =
     monitor\<lparr>hangups := hangups monitor
       @ map server
           (filter (\<lambda>ptr. mon_status_changed (mon_prev_status ptr) (srv_status ptr)
                          \<and> (\<not> is_usable ptr \<or> \<not> is_in_cluster ptr))
              (m_servers monitor))\<rparr>"

text \<open>What the world outside decides during a tick.\<close>

record tick_env =
  probe :: "monitored_server \<Rightarrow> probe_result"
  crc32_fn :: "byte list \<Rightarrow> 32 word"
  sha1_fn :: "byte list \<Rightarrow> byte list"
  journal_io :: journal_io

text \<open>
  \<^verbatim>\<open>MonitorWorker::run_one_tick\<close>, as the list of the states of the monitor after each of
  its seven statements: the maintenance requests, \<^verbatim>\<open>tick()\<close>, the increment of
  \<^verbatim>\<open>m_ticks\<close>, \<^verbatim>\<open>flush_server_status()\<close>, \<^verbatim>\<open>process_state_changes()\<close>,
  \<^verbatim>\<open>mon_hangup_failed_servers\<close> and \<^verbatim>\<open>store_server_journal\<close>. Another thread that reads
  the monitor during the tick sees the state before the tick or one of these.
\<close>

definition run_one_tick_states :: "tick_env \<Rightarrow> monitor \<Rightarrow> monitor list" where
  "run_one_tick_states env monitor =
     (let s1 = monitor_check_maintenance_requests monitor;
          s2 = tick (probe env) s1;
          s3 = s2\<lparr>m_ticks := m_ticks s2 + 1\<rparr>;
          s4 = flush_server_status s3;
          s5 = detect_handle_state_changes s4;
          s6 = mon_hangup_failed_servers s5;
          s7 = store_server_journal (crc32_fn env) (sha1_fn env) (journal_io env) s6
                 (m_master s6)
      in [s1, s2, s3, s4, s5, s6, s7])"

definition run_one_tick :: "tick_env \<Rightarrow> monitor \<Rightarrow> monitor" where
  "run_one_tick env monitor = last (run_one_tick_states env monitor)"

text \<open>The statuses a router can read from a state of the monitor.\<close>

definition published :: "monitor \<Rightarrow> status_t list" where
  "published monitor = map srv_status (m_servers monitor)"

text \<open>A tick in which the master A answers and the slave B does not.\<close>

definition slave_down_env :: tick_env where
  "slave_down_env =
     \<lparr>probe = (\<lambda>pMs. if server pMs = 100 then ConnectionOk (\<lambda>st. st OR SERVER_MASTER)
                      else ConnectionFailed False),
      crc32_fn = byte_sum, sha1_fn = (\<lambda>bs. bs), journal_io = IoOk\<rparr>"

section \<open>Properties of the status bits\<close>

lemmas status_bit_defs =
  SERVER_RUNNING_def SERVER_MAINT_def SERVER_AUTH_ERROR_def SERVER_MASTER_def
  SERVER_SLAVE_def SERVER_BEING_DRAINED_def SERVER_DISK_SPACE_EXHAUSTED_def
  SERVER_WAS_MASTER_def SERVER_JOINED_def SERVER_NDB_def

lemma bit_pow2_word: "bit (2 ^ m :: status_t) n \<longleftrightarrow> n = m \<and> m < 64"
  by (auto simp add: bit_exp_iff possible_bit_word)

lemma bit_status_bits:
  "bit SERVER_RUNNING n \<longleftrightarrow> n = 0"
  "bit SERVER_MAINT n \<longleftrightarrow> n = 1"
  "bit SERVER_AUTH_ERROR n \<longleftrightarrow> n = 2"
  "bit SERVER_MASTER n \<longleftrightarrow> n = 3"
  "bit SERVER_SLAVE n \<longleftrightarrow> n = 4"
  "bit SERVER_BEING_DRAINED n \<longleftrightarrow> n = 5"
  "bit SERVER_DISK_SPACE_EXHAUSTED n \<longleftrightarrow> n = 6"
  "bit SERVER_WAS_MASTER n \<longleftrightarrow> n = 18"
  "bit SERVER_JOINED n \<longleftrightarrow> n = 19"
  "bit SERVER_NDB n \<longleftrightarrow> n = 20"
proof -
  have e: "SERVER_RUNNING = 2 ^ 0" "SERVER_MAINT = 2 ^ 1" "SERVER_AUTH_ERROR = 2 ^ 2"
    "SERVER_MASTER = 2 ^ 3" "SERVER_SLAVE = 2 ^ 4" "SERVER_BEING_DRAINED = 2 ^ 5"
    "SERVER_DISK_SPACE_EXHAUSTED = 2 ^ 6" "SERVER_WAS_MASTER = 2 ^ 18"
    "SERVER_JOINED = 2 ^ 19" "SERVER_NDB = 2 ^ 20"
    by (simp_all add: status_bit_defs)
  show "bit SERVER_RUNNING n \<longleftrightarrow> n = 0" unfolding e(1) bit_pow2_word by simp
  show "bit SERVER_MAINT n \<longleftrightarrow> n = 1" unfolding e(2) bit_pow2_word by simp
  show "bit SERVER_AUTH_ERROR n \<longleftrightarrow> n = 2" unfolding e(3) bit_pow2_word by simp
  show "bit SERVER_MASTER n \<longleftrightarrow> n = 3" unfolding e(4) bit_pow2_word by simp
  show "bit SERVER_SLAVE n \<longleftrightarrow> n = 4" unfolding e(5) bit_pow2_word by simp
  show "bit SERVER_BEING_DRAINED n \<longleftrightarrow> n = 5" unfolding e(6) bit_pow2_word by simp
  show "bit SERVER_DISK_SPACE_EXHAUSTED n \<longleftrightarrow> n = 6" unfolding e(7) bit_pow2_word by simp
  show "bit SERVER_WAS_MASTER n \<longleftrightarrow> n = 18" unfolding e(8) bit_pow2_word by simp
  show "bit SERVER_JOINED n \<longleftrightarrow> n = 19" unfolding e(9) bit_pow2_word by simp
  show "bit SERVER_NDB n \<longleftrightarrow> n = 20" unfolding e(10) bit_pow2_word by simp
qed

lemmas word64_eq_iff = bit_eq_iff [where ?'a = "64 word"]

lemma and_status_bit_ne0:
  "(x AND SERVER_RUNNING \<noteq> 0) = bit x 0"
  "(x AND SERVER_MAINT \<noteq> 0) = bit x 1"
  "(x AND SERVER_MASTER \<noteq> 0) = bit x 3"
  "(x AND SERVER_SLAVE \<noteq> 0) = bit x 4"
  "(x AND SERVER_JOINED \<noteq> 0) = bit x 19"
  "(x AND SERVER_NDB \<noteq> 0) = bit x 20"
  by (auto simp add: word64_eq_iff bit_and_iff bit_status_bits)

lemma bit_all_server_bits:
  "bit all_server_bits n \<longleftrightarrow> n \<in> {0, 1, 3, 4, 19, 20}"
  unfolding all_server_bits_def
  by (auto simp add: bit_or_iff bit_status_bits)

lemma masked_eq_iff:
  "(s AND all_server_bits = t AND all_server_bits) \<longleftrightarrow>
     (bit s 0 = bit t 0 \<and> bit s 1 = bit t 1 \<and> bit s 3 = bit t 3 \<and> bit s 4 = bit t 4
      \<and> bit s 19 = bit t 19 \<and> bit s 20 = bit t 20)"
  (is "?L \<longleftrightarrow> ?R")
proof
  assume h: ?L
  have b: "bit (s AND all_server_bits) n = bit (t AND all_server_bits) n" for n
    using h by simp
  from b [of 0] b [of 1] b [of 3] b [of 4] b [of 19] b [of 20]
  show ?R by (simp add: bit_and_iff bit_all_server_bits)
next
  assume ?R
  then show ?L
    by (auto simp add: word64_eq_iff bit_and_iff bit_all_server_bits)
qed

lemma ms_eq_iff:
  "(s AND (SERVER_MASTER OR SERVER_SLAVE) = t AND (SERVER_MASTER OR SERVER_SLAVE)) \<longleftrightarrow>
     (bit s 3 = bit t 3 \<and> bit s 4 = bit t 4)"
  (is "?L \<longleftrightarrow> ?R")
proof
  assume h: ?L
  have b: "bit (s AND (SERVER_MASTER OR SERVER_SLAVE)) n
         = bit (t AND (SERVER_MASTER OR SERVER_SLAVE)) n" for n
    using h by simp
  from b [of 3] b [of 4]
  show ?R by (simp add: bit_and_iff bit_or_iff bit_status_bits)
next
  assume ?R
  then show ?L
    by (auto simp add: word64_eq_iff bit_and_iff bit_or_iff bit_status_bits)
qed

lemma ms_eq0_iff:
  "(s AND (SERVER_MASTER OR SERVER_SLAVE) = 0) \<longleftrightarrow> (\<not> bit s 3 \<and> \<not> bit s 4)"
  using ms_eq_iff [of s 0] by simp

lemma type_bits_ne0_iff:
  "(s AND server_type_bits \<noteq> 0) \<longleftrightarrow> (bit s 3 \<or> bit s 4 \<or> bit s 19 \<or> bit s 20)"
  unfolding server_type_bits_def
  by (simp add: bit.conj_disj_distrib or_eq_0_iff and_status_bit_ne0 [symmetric])

lemma bit_masked:
  "bit (s AND all_server_bits) n \<longleftrightarrow> bit s n \<and> n \<in> {0, 1, 3, 4, 19, 20}"
  by (simp add: bit_and_iff bit_all_server_bits)

lemma masked_and:
  "(s AND all_server_bits) AND SERVER_RUNNING = s AND SERVER_RUNNING"
  "(s AND all_server_bits) AND SERVER_MAINT = s AND SERVER_MAINT"
  "(s AND all_server_bits) AND SERVER_MASTER = s AND SERVER_MASTER"
  "(s AND all_server_bits) AND SERVER_SLAVE = s AND SERVER_SLAVE"
  "(s AND all_server_bits) AND SERVER_JOINED = s AND SERVER_JOINED"
  "(s AND all_server_bits) AND SERVER_NDB = s AND SERVER_NDB"
  "(s AND all_server_bits) AND (SERVER_MASTER OR SERVER_SLAVE)
     = s AND (SERVER_MASTER OR SERVER_SLAVE)"
  "(s AND all_server_bits) AND server_type_bits = s AND server_type_bits"
  by (auto simp add: word64_eq_iff bit_and_iff bit_or_iff bit_all_server_bits bit_status_bits
      server_type_bits_def)

lemma event_of_LOSS:
  "event_of_type LOSS_EVENT (p AND all_server_bits) (c AND all_server_bits)
     = lost_event (first_role p)"
  by (simp add: event_of_type_def masked_and first_role_def lost_event_def)

lemma event_of_NEW:
  "event_of_type NEW_EVENT (p AND all_server_bits) (c AND all_server_bits)
     = new_event (first_role c)"
  by (simp add: event_of_type_def masked_and first_role_def new_event_def)

lemma general_event_running:
  assumes "p AND SERVER_RUNNING \<noteq> 0" "c AND SERVER_RUNNING \<noteq> 0"
  shows "general_event (p AND all_server_bits) (c AND all_server_bits)
           = (if loss_condition p c then LOSS_EVENT else NEW_EVENT)"
  using assms by (simp add: general_event_def masked_and loss_condition_def Let_def)

lemma first_role_None_iff: "first_role s = None \<longleftrightarrow> s AND server_type_bits = 0"
proof -
  have "s AND server_type_bits = 0 \<longleftrightarrow> \<not> (bit s 3 \<or> bit s 4 \<or> bit s 19 \<or> bit s 20)"
    using type_bits_ne0_iff [of s] by blast
  then show ?thesis
    by (simp add: first_role_def and_status_bit_ne0)
qed

lemma lost_event_defined: "r \<noteq> None \<Longrightarrow> lost_event r \<noteq> UNDEFINED_EVENT"
  by (auto simp add: lost_event_def split: option.splits server_role.splits)

lemma new_event_defined: "r \<noteq> None \<Longrightarrow> new_event r \<noteq> UNDEFINED_EVENT"
  by (auto simp add: new_event_def split: option.splits server_role.splits)

lemma changed_gains_role:
  assumes ch: "mon_status_changed p c"
    and rp: "p AND SERVER_RUNNING \<noteq> 0" and rc: "c AND SERVER_RUNNING \<noteq> 0"
    and nl: "\<not> loss_condition p c"
  shows "c AND server_type_bits \<noteq> 0"
proof -
  from ch have ne: "p AND all_server_bits \<noteq> c AND all_server_bits"
    and nm: "(p AND all_server_bits OR c AND all_server_bits) AND SERVER_MAINT = 0"
    by (auto simp add: mon_status_changed_def Let_def split: if_splits)
  from nm have m: "\<not> bit p 1" "\<not> bit c 1"
    using and_status_bit_ne0(2) [of p] and_status_bit_ne0(2) [of c]
    by (simp_all add: bit.conj_disj_distrib2 or_eq_0_iff masked_and)
  from rp rc have r: "bit p 0" "bit c 0"
    by (simp_all add: and_status_bit_ne0)
  from ne m r have d: "bit p 3 \<noteq> bit c 3 \<or> bit p 4 \<noteq> bit c 4
      \<or> bit p 19 \<noteq> bit c 19 \<or> bit p 20 \<noteq> bit c 20"
    by (auto simp add: masked_eq_iff)
  from nl d show ?thesis
    unfolding loss_condition_def type_bits_ne0_iff ms_eq_iff ms_eq0_iff
    by blast
qed


section \<open>Claims about the monitor's events\<close>

text \<open>
  C3, as stated: for previous flags P and current flags C that both contain RUNNING and
  differ, the category is NEW exactly when P had no role bit and C has one, and LOSS exactly
  when P had a role bit and the role bits are unchanged or cleared. The code differs in both
  directions: a master that becomes a slave is NEW (new_slave) although P had a role bit,
  and a synced server that becomes master as well is LOSS (lost_synced) although its role
  bits were neither unchanged nor cleared.
\<close>

theorem transition_category_counterexample:
  "mon_status_changed (SERVER_RUNNING OR SERVER_MASTER) (SERVER_RUNNING OR SERVER_SLAVE)
   \<and> general_event ((SERVER_RUNNING OR SERVER_MASTER) AND all_server_bits)
        ((SERVER_RUNNING OR SERVER_SLAVE) AND all_server_bits) = NEW_EVENT
   \<and> mon_get_event_type (SERVER_RUNNING OR SERVER_MASTER) (SERVER_RUNNING OR SERVER_SLAVE)
       = NEW_SLAVE_EVENT
   \<and> \<not> spec_new_row (SERVER_RUNNING OR SERVER_MASTER) (SERVER_RUNNING OR SERVER_SLAVE)
   \<and> mon_status_changed (SERVER_RUNNING OR SERVER_JOINED)
        (SERVER_RUNNING OR SERVER_JOINED OR SERVER_MASTER)
   \<and> general_event ((SERVER_RUNNING OR SERVER_JOINED) AND all_server_bits)
        ((SERVER_RUNNING OR SERVER_JOINED OR SERVER_MASTER) AND all_server_bits) = LOSS_EVENT
   \<and> mon_get_event_type (SERVER_RUNNING OR SERVER_JOINED)
        (SERVER_RUNNING OR SERVER_JOINED OR SERVER_MASTER) = LOST_SYNCED_EVENT
   \<and> \<not> spec_loss_row (SERVER_RUNNING OR SERVER_JOINED)
        (SERVER_RUNNING OR SERVER_JOINED OR SERVER_MASTER)"
  by (simp add: mon_status_changed_def mon_get_event_type_def general_event_def
      event_of_type_def spec_new_row_def spec_loss_row_def server_type_bits_def
      all_server_bits_def status_bit_defs)

text \<open>
  C3, amended: for a monitored backend whose status changed (as \<^verbatim>\<open>mon_status_changed\<close>
  requires before the event is computed) and whose previous flags P and current flags C
  both contain RUNNING, the category is LOSS exactly when P had a role bit and the
  master/slave bits of P are empty, or those of C are empty, or both are the same; it is
  NEW in every other case, that is when P had no role bit or the master/slave bits changed
  from one non-empty set to another. LOSS is flavoured by the first role bit of P, NEW by
  the first role bit of C (MASTER, SLAVE, JOINED, NDB in this order), and the event is never
  the undefined one.
\<close>

theorem event_type_while_running:
  assumes ch: "mon_status_changed pst st"
    and rp: "pst AND SERVER_RUNNING \<noteq> 0"
    and rc: "st AND SERVER_RUNNING \<noteq> 0"
  shows "general_event (pst AND all_server_bits) (st AND all_server_bits)
           = (if loss_condition pst st then LOSS_EVENT else NEW_EVENT)
       \<and> mon_get_event_type pst st
           = (if loss_condition pst st
              then lost_event (first_role pst)
              else new_event (first_role st))
       \<and> mon_get_event_type pst st \<noteq> UNDEFINED_EVENT"
proof -
  from ch have ne: "pst AND all_server_bits \<noteq> st AND all_server_bits"
    by (auto simp add: mon_status_changed_def Let_def split: if_splits)
  have g: "general_event (pst AND all_server_bits) (st AND all_server_bits)
           = (if loss_condition pst st then LOSS_EVENT else NEW_EVENT)"
    using rp rc by (rule general_event_running)
  have e: "mon_get_event_type pst st
           = (if loss_condition pst st
              then lost_event (first_role pst)
              else new_event (first_role st))"
    using ne by (simp add: mon_get_event_type_def Let_def g event_of_LOSS event_of_NEW)
  have u: "mon_get_event_type pst st \<noteq> UNDEFINED_EVENT"
  proof (cases "loss_condition pst st")
    case True
    then have "first_role pst \<noteq> None"
      by (simp add: first_role_None_iff loss_condition_def)
    with True e show ?thesis by (simp add: lost_event_defined)
  next
    case False
    with ch rp rc have "first_role st \<noteq> None"
      by (simp add: first_role_None_iff changed_gains_role)
    with False e show ?thesis by (simp add: new_event_defined)
  qed
  from g e u show ?thesis by simp
qed

theorem event_type_while_running_witness:
  "mon_status_changed (SERVER_RUNNING OR SERVER_MASTER) (SERVER_RUNNING OR SERVER_SLAVE)
   \<and> (SERVER_RUNNING OR SERVER_MASTER) AND SERVER_RUNNING \<noteq> 0
   \<and> (SERVER_RUNNING OR SERVER_SLAVE) AND SERVER_RUNNING \<noteq> 0
   \<and> \<not> loss_condition (SERVER_RUNNING OR SERVER_MASTER) (SERVER_RUNNING OR SERVER_SLAVE)
   \<and> mon_get_event_type (SERVER_RUNNING OR SERVER_MASTER) (SERVER_RUNNING OR SERVER_SLAVE)
       = new_event (first_role (SERVER_RUNNING OR SERVER_SLAVE))
   \<and> new_event (first_role (SERVER_RUNNING OR SERVER_SLAVE)) = NEW_SLAVE_EVENT
   \<and> mon_status_changed (SERVER_RUNNING OR SERVER_MASTER) SERVER_RUNNING
   \<and> loss_condition (SERVER_RUNNING OR SERVER_MASTER) SERVER_RUNNING
   \<and> mon_get_event_type (SERVER_RUNNING OR SERVER_MASTER) SERVER_RUNNING
       = LOST_MASTER_EVENT"
  using event_type_while_running
      [of "SERVER_RUNNING OR SERVER_MASTER" "SERVER_RUNNING OR SERVER_SLAVE"]
    event_type_while_running [of "SERVER_RUNNING OR SERVER_MASTER" SERVER_RUNNING]
  by (simp add: mon_status_changed_def loss_condition_def first_role_def new_event_def
      lost_event_def server_type_bits_def all_server_bits_def status_bit_defs)

section \<open>Properties of the router\<close>

lemma running_no_maint:
  "s AND SERVER_MAINT = 0 \<Longrightarrow>
     (s AND (SERVER_RUNNING OR SERVER_MAINT) = SERVER_RUNNING) = (s AND SERVER_RUNNING \<noteq> 0)"
  for s :: status_t
proof -
  assume m: "s AND SERVER_MAINT = 0"
  then have e: "s AND (SERVER_RUNNING OR SERVER_MAINT) = s AND SERVER_RUNNING"
    by (simp add: bit.conj_disj_distrib)
  have "s AND SERVER_RUNNING = 0 \<or> s AND SERVER_RUNNING = SERVER_RUNNING"
    unfolding SERVER_RUNNING_def using and_one_eq [of s]
    by (simp add: mod2_eq_if)
  moreover have "SERVER_RUNNING \<noteq> 0" by (simp add: SERVER_RUNNING_def)
  ultimately show ?thesis using e by auto
qed

lemma matches_iff:
  "status ref AND SERVER_MAINT = 0 \<Longrightarrow>
     status_matches rses ref = code_role_filter rses ref"
  by (simp add: status_matches_def code_role_filter_def server_is_running_def
      running_no_maint and.assoc)

lemma select_loop_fold:
  assumes nm: "bitvalue rses \<noteq> ucast SERVER_MASTER"
  shows "select_loop rses mh refs cand
           = foldl (\<lambda>c r. Some (pick_candidate c r)) cand (filter (is_candidate rses mh) refs)"
proof (induction refs arbitrary: cand)
  case Nil
  show ?case by simp
next
  case (Cons ref refs)
  show ?case
  proof (cases "\<not> SERVER_REF_IS_ACTIVE (snd ref) \<or> server_is_in_maint (snd ref)")
    case True
    then have "\<not> is_candidate rses mh ref"
      by (auto simp add: is_candidate_def SERVER_REF_IS_ACTIVE_def server_is_in_maint_def)
    with True Cons show ?thesis by simp
  next
    case False
    then have a: "active (snd ref)" and m: "status (snd ref) AND SERVER_MAINT = 0"
      by (auto simp add: SERVER_REF_IS_ACTIVE_def server_is_in_maint_def)
    show ?thesis
      using False a m nm Cons
      by (cases mh)
         (simp_all add: matches_iff [OF m] is_candidate_def skipped_root_master_def)
  qed
qed

lemma foldl_pick_Some: "\<exists>b. foldl (\<lambda>c r. Some (pick_candidate c r)) (Some c) xs = Some b"
  by (induction xs arbitrary: c) simp_all

lemma foldl_pick_mem:
  "foldl (\<lambda>c r. Some (pick_candidate c r)) (Some c) xs = Some b \<Longrightarrow> b \<in> set (c # xs)"
proof (induction xs arbitrary: c)
  case Nil
  then show ?case by simp
next
  case (Cons x xs)
  have "pick_candidate (Some c) x = x \<or> pick_candidate (Some c) x = c"
    by (simp add: pick_candidate_def)
  with Cons show ?case by fastforce
qed

lemma load_le_trans: "load_le a b \<Longrightarrow> load_le b c \<Longrightarrow> load_le a c"
  by (auto simp add: load_le_def)

lemma load_le_refl: "load_le a a"
  by (simp add: load_le_def)

lemma pick_positive:
  assumes "0 < weight (snd c)" "0 < weight (snd x)"
  shows "load_le (pick_candidate (Some c) x) c \<and> load_le (pick_candidate (Some c) x) x"
  using assms by (auto simp add: pick_candidate_def load_le_def)

lemma foldl_pick_least:
  assumes "\<forall>x \<in> set (c # xs). 0 < weight (snd x)"
    and "foldl (\<lambda>c r. Some (pick_candidate c r)) (Some c) xs = Some b"
  shows "\<forall>d \<in> set (c # xs). load_le b d"
  using assms
proof (induction xs arbitrary: c)
  case Nil
  then show ?case by (simp add: load_le_refl)
next
  case (Cons x xs)
  let ?p = "pick_candidate (Some c) x"
  have pw: "?p = x \<or> ?p = c" by (simp add: pick_candidate_def)
  with Cons.prems(1) have w: "\<forall>y \<in> set (?p # xs). 0 < weight (snd y)" by auto
  from Cons.prems(2) have f: "foldl (\<lambda>c r. Some (pick_candidate c r)) (Some ?p) xs = Some b"
    by simp
  from Cons.IH [OF w f] have ih: "\<forall>d \<in> set (?p # xs). load_le b d" .
  from Cons.prems(1) have "load_le ?p c \<and> load_le ?p x"
    by (intro pick_positive) simp_all
  with ih have "load_le b c" "load_le b x"
    by (auto intro: load_le_trans)
  with ih show ?case by simp
qed

lemma foldl_pick_nonzero:
  assumes "foldl (\<lambda>c r. Some (pick_candidate c r)) (Some c) xs = Some b"
    and "weight (snd b) = 0"
  shows "\<forall>d \<in> set (c # xs). weight (snd d) = 0"
  using assms
proof (induction xs arbitrary: c)
  case Nil
  then show ?case by simp
next
  case (Cons x xs)
  let ?p = "pick_candidate (Some c) x"
  from Cons.prems(1) have f: "foldl (\<lambda>c r. Some (pick_candidate c r)) (Some ?p) xs = Some b"
    by simp
  from Cons.IH [OF f Cons.prems(2)] have ih: "\<forall>d \<in> set (?p # xs). weight (snd d) = 0" .
  then have "weight (snd ?p) = 0" by simp
  then have "weight (snd c) = 0 \<and> weight (snd x) = 0"
    by (auto simp add: pick_candidate_def split: if_splits)
  with ih show ?case by simp
qed

lemma foldl_pick_all_zero:
  assumes "\<forall>d \<in> set xs. weight (snd d) = 0" "weight (snd c) = 0"
  shows "foldl (\<lambda>c r. Some (pick_candidate c r)) (Some c) xs = Some c"
  using assms
  by (induction xs arbitrary: c) (simp_all add: pick_candidate_def)


lemma int32_in_range: "- (2 ^ 31) \<le> x \<Longrightarrow> x < 2 ^ 31 \<Longrightarrow> int32 x = x"
  by (simp add: int32_def)

lemma conn_ratio_in_range:
  assumes "0 \<le> connections r" "(connections r + 1) * 1000 < 2 ^ 31" "0 < weight r"
  shows "conn_ratio r = spec_ratio r"
proof -
  from assms(1,2) have "connections r + 1 < 2 ^ 31" by simp
  with assms(1) have a: "int32 (connections r + 1) = connections r + 1"
    by (intro int32_in_range) simp_all
  from assms(1) have nn: "0 \<le> (connections r + 1) * 1000" by simp
  with assms(2) have b: "int32 ((connections r + 1) * 1000) = (connections r + 1) * 1000"
    by (intro int32_in_range) simp_all
  have "conn_ratio r = ((connections r + 1) * 1000) sdiv weight r"
    by (simp only: conn_ratio_def a b)
  also have "\<dots> = ((connections r + 1) * 1000) div weight r"
    using assms(1,3) nn by (simp add: signed_divide_int_def sgn_if)
  finally show ?thesis by (simp only: spec_ratio_def)
qed

subsection \<open>What the loop can return\<close>

lemma get_root_master_loop_mem:
  "get_root_master_loop refs mh = Some m \<Longrightarrow> m \<in> set refs \<or> mh = Some m"
proof (induction refs arbitrary: mh)
  case Nil
  then show ?case by simp
next
  case (Cons r refs)
  from Cons.IH [OF Cons.prems [simplified]] show ?case
    by (auto split: if_splits option.splits)
qed

lemma get_root_master_mem:
  "get_root_master servers = Some m \<Longrightarrow> m \<in> set (enumerate 0 servers)"
  using get_root_master_loop_mem [of "enumerate 0 servers" None m]
  by (simp add: get_root_master_def)

lemma enumerate_same_index:
  assumes "r \<in> set (enumerate n xs)" "m \<in> set (enumerate n xs)" "fst r = fst m"
  shows "r = m"
proof -
  have "distinct (map fst (enumerate n xs))" by simp
  with assms show ?thesis
    by (metis eq_key_imp_eq_value prod.collapse)
qed

lemma enumerate_mem_nth:
  "c \<in> set (enumerate 0 xs) \<Longrightarrow> fst c < length xs \<and> snd c = xs ! fst c"
  by (cases c) (auto simp add: in_set_enumerate_eq)

lemma root_master_unique_index:
  "\<forall>r \<in> set (enumerate 0 servers). \<forall>m. get_root_master servers = Some m
      \<longrightarrow> fst r = fst m \<longrightarrow> r = m"
  using get_root_master_mem enumerate_same_index by blast

lemma select_loop_sound:
  assumes "\<forall>r \<in> set refs. \<forall>m. mh = Some m \<longrightarrow> fst r = fst m \<longrightarrow> r = m"
    and "\<forall>c. cand = Some c \<longrightarrow> passes_filter rses c \<and> c \<in> A"
    and "set refs \<subseteq> A"
    and "select_loop rses mh refs cand = Some b"
  shows "passes_filter rses b \<and> b \<in> A"
  using assms
proof (induction refs arbitrary: cand)
  case Nil
  then show ?case by (cases b) auto
next
  case (Cons ref refs)
  have d: "\<forall>r \<in> set refs. \<forall>m. mh = Some m \<longrightarrow> fst r = fst m \<longrightarrow> r = m"
    using Cons.prems(1) by simp
  have s: "set refs \<subseteq> A" using Cons.prems(3) by simp
  show ?case
  proof (cases "\<not> SERVER_REF_IS_ACTIVE (snd ref) \<or> server_is_in_maint (snd ref)")
    case True
    with Cons.prems(4) have "select_loop rses mh refs cand = Some b" by simp
    from Cons.IH [OF d Cons.prems(2) s this] show ?thesis .
  next
    case False
    then have a: "active (snd ref)" and m: "status (snd ref) AND SERVER_MAINT = 0"
      by (auto simp add: SERVER_REF_IS_ACTIVE_def server_is_in_maint_def)
    show ?thesis
    proof (cases "status_matches rses (snd ref)")
      case nomatch: False
      with False Cons.prems(4) have "select_loop rses mh refs cand = Some b" by simp
      from Cons.IH [OF d Cons.prems(2) s this] show ?thesis .
    next
      case True
      with a m have p: "passes_filter rses ref"
        by (simp add: passes_filter_def matches_iff [OF m])
      have inA: "ref \<in> A" using Cons.prems(3) by simp
      have pk: "\<forall>c. Some (pick_candidate cand ref) = Some c \<longrightarrow> passes_filter rses c \<and> c \<in> A"
        using p inA Cons.prems(2)
        by (cases cand) (auto simp add: pick_candidate_def)
      from Cons.prems(4) False True
      consider (skip) "select_loop rses mh refs cand = Some b"
        | (brk) "mh = Some b" "fst ref = fst b"
        | (pick) "select_loop rses mh refs (Some (pick_candidate cand ref)) = Some b"
        by (cases mh) (auto split: if_splits)
      then show ?thesis
      proof cases
        case skip
        from Cons.IH [OF d Cons.prems(2) s this] show ?thesis .
      next
        case brk
        with Cons.prems(1) have "ref = b" by simp
        with p inA show ?thesis by simp
      next
        case pick
        from Cons.IH [OF d pk s this] show ?thesis .
      qed
    qed
  qed
qed

lemma select_backend_mem:
  assumes "select_backend inst = Some (c, rses)"
  shows "c \<in> set (enumerate 0 (dbref inst))"
proof (cases "select_loop (new_client_rses inst) (get_root_master (dbref inst))
                (enumerate 0 (dbref inst)) None")
  case None
  with assms have "get_root_master (dbref inst) = Some c"
    by (auto simp add: select_backend_def Let_def split: option.splits)
  then show ?thesis by (rule get_root_master_mem)
next
  case (Some b)
  with assms have bc: "b = c" by (simp add: select_backend_def Let_def)
  from select_loop_sound [OF root_master_unique_index _ subset_refl Some] bc
  show ?thesis by simp
qed

lemmas router_eval =
  configureInstance_def strtok_def configure_option_def strcasecmp_eq_def tolower_ascii_def
  new_client_rses_def select_backend_def get_root_master_def enumerate_eq_zip
  server_is_master_def SERVER_REF_IS_ACTIVE_def server_is_in_maint_def status_matches_def
  server_is_running_def pick_candidate_def conn_ratio_def int32_def Let_def status_bit_defs

subsection \<open>Sessions for the master alone\<close>

lemma master_value_no_slave_skip:
  "bitvalue rses = ucast SERVER_MASTER \<Longrightarrow>
     bitvalue rses AND ucast (SERVER_SLAVE OR SERVER_MASTER) \<noteq> ucast SERVER_SLAVE"
  by (simp add: status_bit_defs)

lemma select_loop_no_master:
  "bitvalue rses = ucast SERVER_MASTER \<Longrightarrow> select_loop rses None refs None = None"
  by (induction refs) simp_all

lemma select_loop_no_match:
  "\<forall>r \<in> set refs. SERVER_REF_IS_ACTIVE (snd r) \<and> \<not> server_is_in_maint (snd r)
        \<longrightarrow> \<not> status_matches rses (snd r) \<Longrightarrow>
     select_loop rses mh refs cand = cand"
  by (induction refs arbitrary: cand) auto

lemma select_loop_root_master:
  assumes bv: "bitvalue rses = ucast SERVER_MASTER"
    and m: "m \<in> set refs"
    and u: "\<forall>r \<in> set refs. fst r = fst m \<longrightarrow> r = m"
    and a: "SERVER_REF_IS_ACTIVE (snd m)" "\<not> server_is_in_maint (snd m)"
    and t: "status_matches rses (snd m)"
  shows "select_loop rses (Some m) refs cand = Some m"
  using m u
proof (induction refs arbitrary: cand)
  case Nil
  then show ?case by simp
next
  case (Cons ref refs)
  note ns = master_value_no_slave_skip [OF bv]
  show ?case
  proof (cases "ref = m")
    case True
    with a t bv ns show ?thesis by simp
  next
    case False
    with Cons.prems have m': "m \<in> set refs" and f: "fst ref \<noteq> fst m" by auto
    from Cons.prems(2) have u': "\<forall>r \<in> set refs. fst r = fst m \<longrightarrow> r = m" by simp
    from Cons.IH [OF m' u'] f show ?thesis by simp
  qed
qed

lemma get_root_master_loop_is_master:
  "get_root_master_loop refs mh = Some m \<Longrightarrow>
     \<forall>h. mh = Some h \<longrightarrow> active (snd h) \<and> server_is_master (snd h) \<Longrightarrow>
     active (snd m) \<and> server_is_master (snd m)"
proof (induction refs arbitrary: mh)
  case Nil
  then show ?case by simp
next
  case (Cons r refs)
  show ?case
  proof (rule Cons.IH [OF Cons.prems(1) [simplified]])
    show "\<forall>h. (if active (snd r) \<and> server_is_master (snd r)
                then case mh of None \<Rightarrow> Some r
                     | Some m \<Rightarrow> if weight (snd m) < weight (snd r) then Some r else mh
                else mh) = Some h \<longrightarrow> active (snd h) \<and> server_is_master (snd h)"
      using Cons.prems(2) by (auto split: option.splits if_splits)
  qed
qed

lemma get_root_master_is_master:
  "get_root_master servers = Some m \<Longrightarrow> active (snd m) \<and> server_is_master (snd m)"
  using get_root_master_loop_is_master [of "enumerate 0 servers" None m]
  by (simp add: get_root_master_def)

lemma server_is_master_bits:
  "server_is_master b \<longleftrightarrow> bit (status b) 0 \<and> bit (status b) 3 \<and> \<not> bit (status b) 1"
  (is "?L \<longleftrightarrow> ?R")
proof
  assume h: ?L
  have b: "bit (status b AND (SERVER_RUNNING OR SERVER_MASTER OR SERVER_MAINT)) n
           = bit (SERVER_RUNNING OR SERVER_MASTER) n" for n
    using h by (simp add: server_is_master_def)
  from b [of 0] b [of 1] b [of 3] show ?R
    by (simp add: bit_and_iff bit_or_iff bit_status_bits)
next
  assume ?R
  then show ?L
    unfolding server_is_master_def
    by (auto simp add: word64_eq_iff bit_and_iff bit_or_iff bit_status_bits)
qed

lemma master_test_bits:
  assumes bv: "bitvalue rses = ucast SERVER_MASTER"
  shows "(s AND (ucast (bitmask rses) AND ucast (bitvalue rses)) \<noteq> (0::status_t))
           \<longleftrightarrow> bit s 3 \<and> bit (ucast (bitmask rses) :: status_t) 3"
proof -
  have "(ucast (ucast SERVER_MASTER :: 32 word) :: status_t) = SERVER_MASTER"
    by (simp add: SERVER_MASTER_def)
  with bv have e: "(ucast (bitvalue rses) :: status_t) = SERVER_MASTER" by simp
  have "s AND (ucast (bitmask rses) AND SERVER_MASTER)
        = (s AND ucast (bitmask rses)) AND SERVER_MASTER"
    by (simp add: and.assoc)
  then show ?thesis
    unfolding e by (simp add: and_status_bit_ne0 bit_and_iff)
qed


subsection \<open>The example services, evaluated\<close>

lemma relay_service_eq:
  "relay_service =
     \<lparr>dbref = [\<lparr>status = 9, n_connections = 0, active = True, weight = 1, connections = 0\<rparr>,
               relay_server],
      bitmask_and_bitvalue = 0x1000000018, n_sessions = 0\<rparr>"
  by (simp add: relay_service_def router_eval)

lemma relay_rses:
  "new_client_rses relay_service =
     \<lparr>bitmask = 24, bitvalue = 16, backend = 0, backend_dcb = None, rses_closed = False\<rparr>"
  by (simp add: relay_service_eq new_client_rses_def)

lemma two_slaves_eq:
  "two_slaves k =
     \<lparr>dbref = [slave_S1, slave_S2 k], bitmask_and_bitvalue = 0x1000000018, n_sessions = 0\<rparr>"
  by (simp add: two_slaves_def router_eval)

lemma two_slaves_rses:
  "new_client_rses (two_slaves k) =
     \<lparr>bitmask = 24, bitvalue = 16, backend = 0, backend_dcb = None, rses_closed = False\<rparr>"
  by (simp add: two_slaves_eq new_client_rses_def)

lemma weightless_eq:
  "weightless_service =
     \<lparr>dbref = [idle_A, idle_B], bitmask_and_bitvalue = 0x100000001, n_sessions = 0\<rparr>"
  by (simp add: weightless_service_def router_eval)

lemma weightless_rses:
  "new_client_rses weightless_service =
     \<lparr>bitmask = 1, bitvalue = 1, backend = 0, backend_dcb = None, rses_closed = False\<rparr>"
  by (simp add: weightless_eq new_client_rses_def)

lemma crowded_eq:
  "crowded_service =
     \<lparr>dbref = [crowded_S1, quiet_S2], bitmask_and_bitvalue = 0x1000000018, n_sessions = 0\<rparr>"
  by (simp add: crowded_service_def router_eval)

lemma crowded_rses:
  "new_client_rses crowded_service =
     \<lparr>bitmask = 24, bitvalue = 16, backend = 0, backend_dcb = None, rses_closed = False\<rparr>"
  by (simp add: crowded_eq new_client_rses_def)

lemma relay_master_eq:
  "relay_master_service =
     \<lparr>dbref = [slave_S1, relay_server], bitmask_and_bitvalue = 0x800000018, n_sessions = 0\<rparr>"
  by (simp add: relay_master_service_def router_eval)

lemma relay_master_rses:
  "new_client_rses relay_master_service =
     \<lparr>bitmask = 24, bitvalue = 8, backend = 0, backend_dcb = None, rses_closed = False\<rparr>"
  by (simp add: relay_master_eq new_client_rses_def)

lemmas candidate_eval =
  candidates_def is_candidate_def code_role_filter_def skipped_root_master_def
  passes_filter_def

subsection \<open>The selection through its candidates\<close>

lemma select_backend_fold:
  assumes nm: "bitvalue (new_client_rses inst) \<noteq> ucast SERVER_MASTER"
    and cs: "candidates (new_client_rses inst) (get_root_master (dbref inst)) (dbref inst)
               = c # cs"
  shows "\<exists>b. foldl (\<lambda>c r. Some (pick_candidate c r)) (Some c) cs = Some b
           \<and> select_backend inst = Some (b, new_client_rses inst)"
proof -
  obtain b where b: "foldl (\<lambda>c r. Some (pick_candidate c r)) (Some c) cs = Some b"
    using foldl_pick_Some by blast
  have "select_loop (new_client_rses inst) (get_root_master (dbref inst))
          (enumerate 0 (dbref inst)) None
        = foldl (\<lambda>c r. Some (pick_candidate c r)) None (c # cs)"
    using select_loop_fold [OF nm] cs by (simp add: candidates_def)
  also have "\<dots> = Some b" using b by (simp add: pick_candidate_def)
  finally show ?thesis using b by (simp add: select_backend_def Let_def)
qed

lemma spec_filter_implies_code_filter:
  assumes "ucast (bitmask rses) AND ucast (bitvalue rses) \<noteq> (0::status_t)"
    and "spec_role_filter rses b"
  shows "code_role_filter rses b"
proof -
  let ?m = "ucast (bitmask rses) :: status_t" and ?v = "ucast (bitvalue rses) :: status_t"
  from assms(2) have e: "status b AND ?m = ?m AND ?v" and r: "status b AND SERVER_RUNNING \<noteq> 0"
    by (simp_all add: spec_role_filter_def)
  have "status b AND (?m AND ?v) = (status b AND ?m) AND ?v" by (simp add: and.assoc)
  also have "\<dots> = ?m AND ?v" by (simp add: e and.assoc)
  finally show ?thesis using assms(1) r by (simp add: code_role_filter_def)
qed

section \<open>Claims about the router\<close>

text \<open>
  C1, as stated: a backend of the active, non-maintenance list is a candidate if and only if
  \<open>(flags & mask) == (mask & value)\<close> and RUNNING is set. The code differs: with
  \<^verbatim>\<open>router_options=slave\<close>, a running relay server (MASTER and SLAVE both set) that is not
  the root master is chosen, although its masked flags are not \<open>mask & value\<close>.
\<close>

theorem role_filter_counterexample:
  "select_backend relay_service = Some ((1, relay_server), new_client_rses relay_service)
   \<and> active relay_server \<and> status relay_server AND SERVER_MAINT = 0
   \<and> \<not> spec_role_filter (new_client_rses relay_service) relay_server"
  by (simp add: relay_service_eq relay_rses relay_server_def router_eval spec_role_filter_def)

text \<open>
  C1, amended: a backend of the active, non-maintenance list passes the role test if and
  only if RUNNING is set and \<open>flags & mask & value\<close> is not zero. The backends that pass
  are the candidates of the comparison of loads, in the order of the list, with the two
  special cases of the root master: in a session whose value has SLAVE without MASTER the
  root master is left out, and in a session whose value is MASTER alone the loop returns
  the root master when there is one and it passes the test, and nothing otherwise, whatever
  other backends pass. The loop of \<^verbatim>\<open>newSession\<close> is, for every filter and every list of
  servers, exactly that.
\<close>

theorem role_filter_candidates:
  "select_loop rses (get_root_master servers) (enumerate 0 servers) None
     = (if bitvalue rses = ucast SERVER_MASTER
        then (case get_root_master servers of
                None \<Rightarrow> None
              | Some m \<Rightarrow>
                  if status (snd m) AND SERVER_RUNNING \<noteq> 0
                     \<and> status (snd m) AND (ucast (bitmask rses) AND ucast (bitvalue rses)) \<noteq> 0
                  then Some m else None)
        else foldl (\<lambda>c r. Some (pick_candidate c r)) None
               (filter (\<lambda>ref. active (snd ref) \<and> status (snd ref) AND SERVER_MAINT = 0
                          \<and> status (snd ref) AND SERVER_RUNNING \<noteq> 0
                          \<and> status (snd ref)
                              AND (ucast (bitmask rses) AND ucast (bitvalue rses)) \<noteq> 0
                          \<and> \<not> (bitvalue rses AND ucast (SERVER_SLAVE OR SERVER_MASTER)
                                  = ucast SERVER_SLAVE
                               \<and> get_root_master servers = Some ref))
                  (enumerate 0 servers)))"
proof (cases "bitvalue rses = ucast SERVER_MASTER")
  case bv: True
  show ?thesis
  proof (cases "get_root_master servers")
    case None
    with bv show ?thesis by (simp add: select_loop_no_master)
  next
    case (Some m)
    from get_root_master_mem [OF Some] have mem: "m \<in> set (enumerate 0 servers)" .
    from get_root_master_is_master [OF Some]
    have act: "active (snd m)" and b: "bit (status (snd m)) 0" "bit (status (snd m)) 3"
      "\<not> bit (status (snd m)) 1"
      by (simp_all add: server_is_master_bits)
    from b have nm: "status (snd m) AND SERVER_MAINT = 0" and run: "status (snd m) AND SERVER_RUNNING \<noteq> 0"
      using and_status_bit_ne0 [of "status (snd m)"] by simp_all
    show ?thesis
    proof (cases "bit (ucast (bitmask rses) :: status_t) 3")
      case True
      with b have t: "status (snd m) AND (ucast (bitmask rses) AND ucast (bitvalue rses)) \<noteq> 0"
        by (simp add: master_test_bits [OF bv])
      with run have "status_matches rses (snd m)"
        by (simp add: matches_iff [OF nm] code_role_filter_def)
      moreover have "\<forall>r \<in> set (enumerate 0 servers). fst r = fst m \<longrightarrow> r = m"
        using mem enumerate_same_index by blast
      ultimately have "select_loop rses (Some m) (enumerate 0 servers) None = Some m"
        using act nm mem
        by (intro select_loop_root_master [OF bv])
           (simp_all add: SERVER_REF_IS_ACTIVE_def server_is_in_maint_def)
      with bv Some run t show ?thesis by simp
    next
      case False
      then have none: "\<And>s. s AND (ucast (bitmask rses) AND ucast (bitvalue rses)) = (0::status_t)"
        using master_test_bits [OF bv] by blast
      have "\<forall>r \<in> set (enumerate 0 servers).
              SERVER_REF_IS_ACTIVE (snd r) \<and> \<not> server_is_in_maint (snd r)
              \<longrightarrow> \<not> status_matches rses (snd r)"
        by (simp add: status_matches_def and.assoc none)
      from select_loop_no_match [OF this]
      have "select_loop rses (Some m) (enumerate 0 servers) None = None" .
      with bv Some none show ?thesis by simp
    qed
  qed
next
  case nbv: False
  have "filter (is_candidate rses (get_root_master servers)) (enumerate 0 servers)
        = filter (\<lambda>ref. active (snd ref) \<and> status (snd ref) AND SERVER_MAINT = 0
                          \<and> status (snd ref) AND SERVER_RUNNING \<noteq> 0
                          \<and> status (snd ref)
                              AND (ucast (bitmask rses) AND ucast (bitvalue rses)) \<noteq> 0
                          \<and> \<not> (bitvalue rses AND ucast (SERVER_SLAVE OR SERVER_MASTER)
                                  = ucast SERVER_SLAVE
                               \<and> get_root_master servers = Some ref))
            (enumerate 0 servers)"
  proof (rule filter_cong [OF refl])
    fix ref
    assume r: "ref \<in> set (enumerate 0 servers)"
    have "(\<exists>m. get_root_master servers = Some m \<and> fst ref = fst m)
            \<longleftrightarrow> get_root_master servers = Some ref"
    proof
      assume "\<exists>m. get_root_master servers = Some m \<and> fst ref = fst m"
      then obtain m where m: "get_root_master servers = Some m" "fst ref = fst m" by blast
      from get_root_master_mem [OF m(1)] r m(2) have "ref = m"
        by (intro enumerate_same_index)
      with m(1) show "get_root_master servers = Some ref" by simp
    next
      assume "get_root_master servers = Some ref"
      then show "\<exists>m. get_root_master servers = Some m \<and> fst ref = fst m" by simp
    qed
    then have "skipped_root_master rses (get_root_master servers) ref
          \<longleftrightarrow> (bitvalue rses AND ucast (SERVER_SLAVE OR SERVER_MASTER) = ucast SERVER_SLAVE
               \<and> get_root_master servers = Some ref)"
      by (cases "get_root_master servers") (auto simp add: skipped_root_master_def)
    then show "is_candidate rses (get_root_master servers) ref
          = (active (snd ref) \<and> status (snd ref) AND SERVER_MAINT = 0
                          \<and> status (snd ref) AND SERVER_RUNNING \<noteq> 0
                          \<and> status (snd ref)
                              AND (ucast (bitmask rses) AND ucast (bitvalue rses)) \<noteq> 0
                          \<and> \<not> (bitvalue rses AND ucast (SERVER_SLAVE OR SERVER_MASTER)
                                  = ucast SERVER_SLAVE
                               \<and> get_root_master servers = Some ref))"
      by (simp add: is_candidate_def code_role_filter_def)
  qed
  with select_loop_fold [OF nbv, of "get_root_master servers" "enumerate 0 servers" None] nbv
  show ?thesis by simp
qed

theorem role_filter_candidates_witness:
  "bitvalue (new_client_rses relay_service) \<noteq> ucast SERVER_MASTER
   \<and> select_loop (new_client_rses relay_service) (get_root_master (dbref relay_service))
        (enumerate 0 (dbref relay_service)) None = Some (1, relay_server)
   \<and> bitvalue (new_client_rses relay_master_service) = ucast SERVER_MASTER
   \<and> get_root_master (dbref relay_master_service) = Some (1, relay_server)
   \<and> select_loop (new_client_rses relay_master_service)
        (get_root_master (dbref relay_master_service))
        (enumerate 0 (dbref relay_master_service)) None = Some (1, relay_server)
   \<and> \<not> spec_role_filter (new_client_rses relay_master_service) relay_server"
  using role_filter_candidates [of "new_client_rses relay_service" "dbref relay_service"]
    role_filter_candidates
      [of "new_client_rses relay_master_service" "dbref relay_master_service"]
  by (simp add: relay_service_eq relay_rses relay_master_eq relay_master_rses
      relay_server_def slave_S1_def router_eval spec_role_filter_def)

text \<open>
  C2, within the range of \<^verbatim>\<open>int\<close>: when the session's value is not MASTER alone (the
  master special case), the candidate list is not empty, every candidate has a positive
  weight and, for every candidate, \<open>(connections + 1) * 1000\<close> fits the 32 bits of an
  \<^verbatim>\<open>int\<close>, the selection chooses a candidate whose \<open>(connections + 1) * 1000 / weight\<close> is
  least, and among the candidates of that ratio one whose lifetime-session count is least.
\<close>

theorem least_loaded_selected:
  assumes nm: "bitvalue (new_client_rses inst) \<noteq> ucast SERVER_MASTER"
    and ne: "candidates (new_client_rses inst) (get_root_master (dbref inst)) (dbref inst) \<noteq> []"
    and pw: "\<forall>c \<in> set (candidates (new_client_rses inst) (get_root_master (dbref inst))
                          (dbref inst)). 0 < weight (snd c)"
    and rg: "\<forall>c \<in> set (candidates (new_client_rses inst) (get_root_master (dbref inst))
                          (dbref inst)).
               0 \<le> connections (snd c) \<and> (connections (snd c) + 1) * 1000 < 2 ^ 31"
  shows "\<exists>c. select_backend inst = Some (c, new_client_rses inst)
           \<and> c \<in> set (candidates (new_client_rses inst) (get_root_master (dbref inst))
                         (dbref inst))
           \<and> (\<forall>d \<in> set (candidates (new_client_rses inst) (get_root_master (dbref inst))
                          (dbref inst)).
                 spec_ratio (snd c) < spec_ratio (snd d)
                 \<or> (spec_ratio (snd c) = spec_ratio (snd d)
                    \<and> n_connections (snd c) \<le> n_connections (snd d)))"
proof -
  from ne obtain x xs where cs:
    "candidates (new_client_rses inst) (get_root_master (dbref inst)) (dbref inst) = x # xs"
    by (cases "candidates (new_client_rses inst) (get_root_master (dbref inst)) (dbref inst)")
       auto
  from select_backend_fold [OF nm cs] obtain b
    where f: "foldl (\<lambda>c r. Some (pick_candidate c r)) (Some x) xs = Some b"
      and s: "select_backend inst = Some (b, new_client_rses inst)"
    by blast
  from pw cs have w: "\<forall>y \<in> set (x # xs). 0 < weight (snd y)" by simp
  from rg pw cs have r: "\<forall>y \<in> set (x # xs). conn_ratio (snd y) = spec_ratio (snd y)"
    by (simp add: conn_ratio_in_range)
  from foldl_pick_mem [OF f] have m: "b \<in> set (x # xs)" .
  from foldl_pick_least [OF w f] have l: "\<forall>d \<in> set (x # xs). load_le b d" .
  have "\<forall>d \<in> set (x # xs).
          spec_ratio (snd b) < spec_ratio (snd d)
          \<or> (spec_ratio (snd b) = spec_ratio (snd d)
             \<and> n_connections (snd b) \<le> n_connections (snd d))"
  proof
    fix d
    assume d: "d \<in> set (x # xs)"
    with l have "load_le b d" by blast
    moreover from r m have "conn_ratio (snd b) = spec_ratio (snd b)" by blast
    moreover from r d have "conn_ratio (snd d) = spec_ratio (snd d)" by blast
    ultimately show "spec_ratio (snd b) < spec_ratio (snd d)
          \<or> (spec_ratio (snd b) = spec_ratio (snd d)
             \<and> n_connections (snd b) \<le> n_connections (snd d))"
      by (simp add: load_le_def)
  qed
  with s m show ?thesis unfolding cs by blast
qed

theorem least_loaded_selected_witness:
  "bitvalue (new_client_rses (two_slaves 4)) \<noteq> ucast SERVER_MASTER
   \<and> candidates (new_client_rses (two_slaves 4)) (get_root_master (dbref (two_slaves 4)))
        (dbref (two_slaves 4)) = [(0, slave_S1), (1, slave_S2 4)]
   \<and> spec_ratio slave_S1 = 5500 \<and> spec_ratio (slave_S2 4) = 5000
   \<and> select_backend (two_slaves 4) = Some ((1, slave_S2 4), new_client_rses (two_slaves 4))
   \<and> candidates (new_client_rses (two_slaves 9)) (get_root_master (dbref (two_slaves 9)))
        (dbref (two_slaves 9)) = [(0, slave_S1), (1, slave_S2 9)]
   \<and> spec_ratio (slave_S2 9) = 10000
   \<and> select_backend (two_slaves 9) = Some ((0, slave_S1), new_client_rses (two_slaves 9))"
  using least_loaded_selected [of "two_slaves 4"] least_loaded_selected [of "two_slaves 9"]
  by (simp add: two_slaves_eq two_slaves_rses slave_S1_def slave_S2_def router_eval
      candidate_eval spec_ratio_def)

text \<open>
  C2, beyond that range, fails in the code: the loop computes \<open>(connections + 1) * 1000\<close>
  in a 32-bit \<^verbatim>\<open>int\<close>, and from 2147483 connections on the product wraps around. With two
  slaves of weight 1, the first holding 2147483 connections and the second 5, the ratios
  are 2147484000 and 6000; the loop computes -2147483296 for the first and chooses it,
  against its own comments ("This running server has fewer connections", "We now have the
  server with the least connections").
\<close>

theorem ratio_overflow_selects_loaded:
  "bitvalue (new_client_rses crowded_service) \<noteq> ucast SERVER_MASTER
   \<and> candidates (new_client_rses crowded_service) (get_root_master (dbref crowded_service))
        (dbref crowded_service) = [(0, crowded_S1), (1, quiet_S2)]
   \<and> weight crowded_S1 = 1 \<and> weight quiet_S2 = 1
   \<and> spec_ratio crowded_S1 = 2147484000 \<and> spec_ratio quiet_S2 = 6000
   \<and> conn_ratio crowded_S1 = - 2147483296 \<and> conn_ratio quiet_S2 = 6000
   \<and> select_backend crowded_service
       = Some ((0, crowded_S1), new_client_rses crowded_service)"
  by (simp add: crowded_eq crowded_rses crowded_S1_def quiet_S2_def router_eval
      candidate_eval spec_ratio_def)

text \<open>
  C8, as stated: when every candidate has weight 0, the candidate with the lowest
  lifetime-session count is chosen. The code differs: of two candidates of weight 0 it keeps
  the first, although the second has had fewer sessions.
\<close>

theorem zero_weight_counterexample:
  "candidates (new_client_rses weightless_service)
      (get_root_master (dbref weightless_service)) (dbref weightless_service)
     = [(0, idle_A), (1, idle_B)]
   \<and> weight idle_A = 0 \<and> weight idle_B = 0
   \<and> n_connections idle_B < n_connections idle_A
   \<and> select_backend weightless_service
       = Some ((0, idle_A), new_client_rses weightless_service)"
  by (simp add: weightless_eq weightless_rses idle_A_def idle_B_def router_eval
      candidate_eval)

text \<open>
  C8, amended: a backend of weight 0 is never chosen while some candidate has a weight
  other than 0, and when every candidate has weight 0 the selection is still deterministic:
  the first candidate in the order of the list is chosen, whatever the lifetime-session
  counts. (For sessions whose value is not MASTER alone; with MASTER alone the root master
  is the only candidate.)
\<close>

theorem zero_weight_selection:
  assumes nm: "bitvalue (new_client_rses inst) \<noteq> ucast SERVER_MASTER"
  shows "(\<forall>c r. select_backend inst = Some (c, r) \<longrightarrow> weight (snd c) = 0 \<longrightarrow>
            (\<forall>d \<in> set (candidates (new_client_rses inst) (get_root_master (dbref inst))
                           (dbref inst)). weight (snd d) = 0))
       \<and> (candidates (new_client_rses inst) (get_root_master (dbref inst)) (dbref inst) \<noteq> []
          \<longrightarrow> (\<forall>d \<in> set (candidates (new_client_rses inst) (get_root_master (dbref inst))
                           (dbref inst)). weight (snd d) = 0)
          \<longrightarrow> select_backend inst
               = Some (hd (candidates (new_client_rses inst) (get_root_master (dbref inst))
                             (dbref inst)),
                       new_client_rses inst))"
proof (cases "candidates (new_client_rses inst) (get_root_master (dbref inst)) (dbref inst)")
  case Nil
  then show ?thesis by simp
next
  case (Cons x xs)
  from select_backend_fold [OF nm Cons] obtain b
    where f: "foldl (\<lambda>c r. Some (pick_candidate c r)) (Some x) xs = Some b"
      and s: "select_backend inst = Some (b, new_client_rses inst)"
    by blast
  have one: "weight (snd b) = 0 \<Longrightarrow> \<forall>d \<in> set (x # xs). weight (snd d) = 0"
    using foldl_pick_nonzero [OF f] by blast
  have two: "\<forall>d \<in> set (x # xs). weight (snd d) = 0 \<Longrightarrow> b = x"
    using foldl_pick_all_zero [of xs x] f by simp
  have p1: "\<forall>c r. select_backend inst = Some (c, r) \<longrightarrow> weight (snd c) = 0 \<longrightarrow>
            (\<forall>d \<in> set (x # xs). weight (snd d) = 0)"
  proof (intro allI impI)
    fix c r
    assume "select_backend inst = Some (c, r)" and w: "weight (snd c) = 0"
    with s have "c = b" by simp
    with w one show "\<forall>d \<in> set (x # xs). weight (snd d) = 0" by simp
  qed
  have p2: "x # xs \<noteq> [] \<longrightarrow> (\<forall>d \<in> set (x # xs). weight (snd d) = 0)
          \<longrightarrow> select_backend inst = Some (hd (x # xs), new_client_rses inst)"
  proof (intro impI)
    assume "\<forall>d \<in> set (x # xs). weight (snd d) = 0"
    then have "b = x" by (rule two)
    with s show "select_backend inst = Some (hd (x # xs), new_client_rses inst)" by simp
  qed
  from p1 p2 show ?thesis unfolding Cons by (rule conjI)
qed

theorem zero_weight_selection_witness:
  "bitvalue (new_client_rses weightless_service) \<noteq> ucast SERVER_MASTER
   \<and> candidates (new_client_rses weightless_service)
        (get_root_master (dbref weightless_service)) (dbref weightless_service)
       = [(0, idle_A), (1, idle_B)]
   \<and> weight idle_A = 0 \<and> weight idle_B = 0
   \<and> select_backend weightless_service
       = Some ((0, idle_A), new_client_rses weightless_service)"
  using zero_weight_selection [of weightless_service]
  by (simp add: weightless_eq weightless_rses idle_A_def idle_B_def router_eval
      candidate_eval)

text \<open>
  C5: a session creation that returns no session (no memory, no eligible backend, or no
  backend connection) leaves the instance, and so every backend, as it was; one that
  returns a session has added exactly 1 to the connection counter of the session's backend
  and changed no other backend; closing the session changes no counter, and freeing it
  takes exactly 1 from the same counter, so that the list of backends is again what it was
  before the session.
\<close>

theorem session_counter_balance:
  "(newSession calloc_ok dcb_connect inst = (None, inst') \<longrightarrow> inst' = inst)
   \<and> (newSession calloc_ok dcb_connect inst = (Some rses, inst') \<longrightarrow>
        backend rses < length (dbref inst)
        \<and> dbref inst'
            = (dbref inst)[backend rses :=
                (dbref inst ! backend rses)
                  \<lparr>connections := connections (dbref inst ! backend rses) + 1\<rparr>]
        \<and> backend (closeSession rses) = backend rses
        \<and> connections (dbref (freeSession inst' (closeSession rses)) ! backend rses)
            = connections (dbref inst' ! backend rses) - 1
        \<and> dbref (freeSession inst' (closeSession rses)) = dbref inst)"
proof (intro conjI impI)
  assume "newSession calloc_ok dcb_connect inst = (None, inst')"
  then show "inst' = inst"
    by (auto simp add: newSession_def split: if_splits option.splits prod.splits)
next
  assume n: "newSession calloc_ok dcb_connect inst = (Some rses, inst')"
  then obtain c r0 dcb where sel: "select_backend inst = Some (c, r0)"
    and r: "rses = r0\<lparr>backend := fst c, backend_dcb := Some dcb\<rparr>"
    and i: "inst' = inst\<lparr>dbref := (dbref inst)
                           [fst c := (snd c)\<lparr>connections := connections (snd c) + 1\<rparr>],
                         n_sessions := n_sessions inst + 1\<rparr>"
    by (auto simp add: newSession_def split: if_splits option.splits prod.splits)
  from select_backend_mem [OF sel] have "fst c < length (dbref inst) \<and> snd c = dbref inst ! fst c"
    by (rule enumerate_mem_nth)
  then have lt: "fst c < length (dbref inst)" and sc: "snd c = dbref inst ! fst c" by simp_all
  have b: "backend rses = fst c" using r by simp
  show "backend rses < length (dbref inst)" using b lt by simp
  show upd: "dbref inst'
            = (dbref inst)[backend rses :=
                (dbref inst ! backend rses)
                  \<lparr>connections := connections (dbref inst ! backend rses) + 1\<rparr>]"
    using i b sc by simp
  show cb: "backend (closeSession rses) = backend rses"
    by (simp add: closeSession_def)
  show "connections (dbref (freeSession inst' (closeSession rses)) ! backend rses)
            = connections (dbref inst' ! backend rses) - 1"
    using lt b by (simp add: freeSession_def cb upd)
  show "dbref (freeSession inst' (closeSession rses)) = dbref inst"
    using lt b by (simp add: freeSession_def cb upd list_update_same_conv)
qed

theorem session_counter_balance_witness:
  "newSession True (\<lambda>c. None) (two_slaves 4) = (None, two_slaves 4)
   \<and> newSession True (\<lambda>c. Some 7) (two_slaves 4)
       = (Some \<lparr>bitmask = 24, bitvalue = 16, backend = 1, backend_dcb = Some 7,
                rses_closed = False\<rparr>,
          \<lparr>dbref = [slave_S1, (slave_S2 4)\<lparr>connections := 5\<rparr>],
           bitmask_and_bitvalue = 0x1000000018, n_sessions = 1\<rparr>)
   \<and> dbref (freeSession
        \<lparr>dbref = [slave_S1, (slave_S2 4)\<lparr>connections := 5\<rparr>],
         bitmask_and_bitvalue = 0x1000000018, n_sessions = 1\<rparr>
        (closeSession \<lparr>bitmask = 24, bitvalue = 16, backend = 1, backend_dcb = Some 7,
                rses_closed = False\<rparr>))
       = dbref (two_slaves 4)"
  using session_counter_balance [of True "\<lambda>c. None" "two_slaves 4" "two_slaves 4"]
    session_counter_balance [of True "\<lambda>c. Some 7" "two_slaves 4"
      "\<lparr>dbref = [slave_S1, (slave_S2 4)\<lparr>connections := 5\<rparr>],
           bitmask_and_bitvalue = 0x1000000018, n_sessions = 1\<rparr>"
      "\<lparr>bitmask = 24, bitvalue = 16, backend = 1, backend_dcb = Some 7,
                rses_closed = False\<rparr>"]
  by (simp add: newSession_def two_slaves_eq two_slaves_rses slave_S1_def slave_S2_def
      router_eval freeSession_def closeSession_def)

section \<open>Properties of the replication stream processor\<close>

lemmas rpl_eval =
  process_events_turn_def process_one_event_def connect_def connect_queries_def
  to_gtid_string_def table_enqueue_def table_process_def scenario_replicator_def
  scenario_answers_def new_replicator_def

lemma no_table_fault:
  "map_of (m_tables st) tid \<in> {None, Some None} \<Longrightarrow>
   process_one_event table_open st (WRITE_ROWS_EVENT_V1 tid) = Inl NullDereference"
  by (auto simp add: process_one_event_def)

lemma process_all_keys:
  "process_all ts = Inr ts' \<Longrightarrow>
   map_of ts' tid = map_option (map_option table_process) (map_of ts tid)"
proof (induction ts arbitrary: ts' rule: process_all.induct)
  case 1
  then show ?case by simp
next
  case (2 k ts)
  then show ?case by simp
next
  case (3 k t ts)
  then show ?case by (auto split: sum.splits)
qed

lemma one_event_keeps_unmapped:
  assumes "process_one_event table_open st ev = Inr st'"
    and "ev \<noteq> TABLE_MAP_EVENT tid"
    and "map_of (m_tables st) tid \<in> {None, Some None}"
  shows "map_of (m_tables st') tid \<in> {None, Some None}"
  using assms
  by (cases ev)
     (auto simp add: process_one_event_def update_conv' process_all_keys
       split: sum.splits option.splits if_splits)

lemma stream_keeps_unmapped:
  assumes "process_stream table_open st evs = Inr st'"
    and "TABLE_MAP_EVENT tid \<notin> set evs"
    and "map_of (m_tables st) tid \<in> {None, Some None}"
  shows "map_of (m_tables st') tid \<in> {None, Some None}"
  using assms
proof (induction evs arbitrary: st)
  case Nil
  then show ?case by simp
next
  case (Cons ev evs)
  from Cons.prems(1) obtain st1 where o: "process_one_event table_open st ev = Inr st1"
    and r: "process_stream table_open st1 evs = Inr st'"
    by (auto split: sum.splits)
  from Cons.prems(2) have n: "ev \<noteq> TABLE_MAP_EVENT tid" "TABLE_MAP_EVENT tid \<notin> set evs"
    by auto
  from one_event_keeps_unmapped [OF o n(1) Cons.prems(3)]
  have "map_of (m_tables st1) tid \<in> {None, Some None}" .
  from Cons.IH [OF r n(2) this] show ?case .
qed

lemma connect_keeps_tables:
  "connect st outcome = (ok, st', sent) \<Longrightarrow> m_tables st' = m_tables st"
  by (auto simp add: connect_def split: option.splits connect_outcome.splits)

lemma turn_keeps_unmapped:
  assumes "process_events_turn table_open st answer = Inr (st', sent)"
    and "snd answer \<noteq> Some (TABLE_MAP_EVENT tid)"
    and "map_of (m_tables st) tid \<in> {None, Some None}"
  shows "map_of (m_tables st') tid \<in> {None, Some None}"
proof -
  obtain ok st1 sent1 where c: "connect st (fst answer) = (ok, st1, sent1)"
    by (cases "connect st (fst answer)") auto
  from connect_keeps_tables [OF c] assms(3)
  have u1: "map_of (m_tables st1) tid \<in> {None, Some None}" by simp
  show ?thesis
  proof (cases ok)
    case False
    with assms(1) c have "st' = st1" by (simp add: process_events_turn_def)
    with u1 show ?thesis by simp
  next
    case True
    show ?thesis
    proof (cases "snd answer")
      case None
      with assms(1) c True have "st' = st1\<lparr>m_sql := None\<rparr>"
        by (simp add: process_events_turn_def)
      with u1 show ?thesis by simp
    next
      case (Some ev)
      with assms(1) c True have o: "process_one_event table_open st1 ev = Inr st'"
        by (simp add: process_events_turn_def split: sum.splits)
      from Some assms(2) have "ev \<noteq> TABLE_MAP_EVENT tid" by simp
      from one_event_keeps_unmapped [OF o this u1] show ?thesis .
    qed
  qed
qed

lemma events_keep_unmapped:
  assumes "process_events table_open st answers = Inr (st', sent)"
    and "\<forall>a \<in> set answers. snd a \<noteq> Some (TABLE_MAP_EVENT tid)"
    and "map_of (m_tables st) tid \<in> {None, Some None}"
  shows "map_of (m_tables st') tid \<in> {None, Some None}"
  using assms
proof (induction answers arbitrary: st sent)
  case Nil
  then show ?case by simp
next
  case (Cons a answers)
  show ?case
  proof (cases "m_running st")
    case False
    with Cons.prems(1) have "st' = st" by simp
    with Cons.prems(3) show ?thesis by simp
  next
    case True
    with Cons.prems(1) obtain st1 sent1 sent2
      where t: "process_events_turn table_open st a = Inr (st1, sent1)"
        and r: "process_events table_open st1 answers = Inr (st', sent2)"
      by (auto split: sum.splits prod.splits)
    from Cons.prems(2) have n: "snd a \<noteq> Some (TABLE_MAP_EVENT tid)"
      "\<forall>a \<in> set answers. snd a \<noteq> Some (TABLE_MAP_EVENT tid)" by simp_all
    from turn_keeps_unmapped [OF t n(1) Cons.prems(3)]
    have "map_of (m_tables st1) tid \<in> {None, Some None}" .
    from Cons.IH [OF r n(2) this] show ?thesis .
  qed
qed

section \<open>Claims about the replication stream processor\<close>

text \<open>
  C7, as stated: when the fetch returns no event the processor releases the connection and
  reconnects from the committed cursor, the in-flight transaction id is discarded on
  reconnect, and the committed cursor is the only state that survives. The code differs: in
  scenario 4 (cursor \<^verbatim>\<open>1-101-42\<close>, transaction \<^verbatim>\<open>1-101-43\<close> begun, one row event queued,
  then no event), after the reconnect from \<^verbatim>\<open>1-101-42\<close> the in-flight id is still
  \<^verbatim>\<open>1-101-43\<close> and the table map still holds the queued row event.
\<close>

theorem reconnect_counterexample:
  "process_events (\<lambda>ev. None) scenario_replicator scenario_answers
     = Inr (\<lparr>m_sql = Some 2, m_running = True, m_error = [], m_gtid = ''1-101-42'',
             m_current_gtid = ''1-101-43'',
             m_tables = [(7, Some \<lparr>queued = [WRITE_ROWS_EVENT_V1 7], flushed = []\<rparr>)]\<rparr>,
            connect_queries scenario_replicator)
   \<and> connect_queries scenario_replicator ! 2 = ''SET @slave_connect_state='' @ [CHR 0x27]
        @ ''1-101-42'' @ [CHR 0x27]"
  by (simp add: rpl_eval)

text \<open>
  C7, amended: whenever the event fetch returns no event, the processor releases the
  connection and changes nothing else; the next successful connect sends the committed
  cursor as the start position (\<^verbatim>\<open>SET @slave_connect_state\<close>) and again changes nothing but
  the connection. The in-flight transaction id and the table map are kept across the
  reconnect: they change only when a later GTID or table-map event overwrites them.
\<close>

theorem reconnect_keeps_state:
  assumes "m_sql st = Some c"
  shows "process_events_turn table_open st (answer, None) = Inr (st\<lparr>m_sql := None\<rparr>, [])
       \<and> connect (st\<lparr>m_sql := None\<rparr>) (Connected c')
           = (True, st\<lparr>m_sql := Some c'\<rparr>, connect_queries st)
       \<and> connect_queries st ! 2
           = ''SET @slave_connect_state='' @ [CHR 0x27] @ m_gtid st @ [CHR 0x27]
       \<and> m_gtid (st\<lparr>m_sql := Some c'\<rparr>) = m_gtid st
       \<and> m_current_gtid (st\<lparr>m_sql := Some c'\<rparr>) = m_current_gtid st
       \<and> m_tables (st\<lparr>m_sql := Some c'\<rparr>) = m_tables st"
  using assms
  by (simp add: process_events_turn_def connect_def connect_queries_def)

theorem reconnect_keeps_state_witness:
  "m_sql scenario_replicator = Some 1
   \<and> process_events_turn (\<lambda>ev. None) scenario_replicator (Connected 1, None)
       = Inr (scenario_replicator\<lparr>m_sql := None\<rparr>, [])
   \<and> connect (scenario_replicator\<lparr>m_sql := None\<rparr>) (Connected 2)
       = (True, scenario_replicator\<lparr>m_sql := Some 2\<rparr>, connect_queries scenario_replicator)
   \<and> connect_queries scenario_replicator ! 2
       = ''SET @slave_connect_state='' @ [CHR 0x27] @ ''1-101-42'' @ [CHR 0x27]"
  using reconnect_keeps_state [of scenario_replicator 1 "\<lambda>ev. None" "Connected 1" 2]
  by (simp add: scenario_replicator_def)

text \<open>
  C10, as stated: a WRITE_ROWS_EVENT_V1 is handled safely only if a TABLE_MAP event for the
  same table id was handled earlier in the same stream session. The code differs: the table
  map is kept when the processor reconnects, so a row event is handled safely in a session
  that has seen no table-map event, when an earlier session has mapped its table. Here
  table 7 is mapped, the source disconnects, and the row event for table 7 is the first
  event of the next session.
\<close>

theorem same_session_counterexample:
  "process_events (\<lambda>ev. Some \<lparr>queued = [], flushed = []\<rparr>) new_replicator
     [(Connected 1, Some (TABLE_MAP_EVENT 7)), (Connected 1, None),
      (Connected 2, Some (WRITE_ROWS_EVENT_V1 7))]
     = Inr (new_replicator
              \<lparr>m_sql := Some 2,
               m_tables := [(7, Some \<lparr>queued = [WRITE_ROWS_EVENT_V1 7], flushed = []\<rparr>)]\<rparr>,
            connect_queries new_replicator @ connect_queries new_replicator)"
  by (simp add: rpl_eval)

text \<open>
  C10, amended: a WRITE_ROWS_EVENT_V1 is handled safely only if a TABLE_MAP event for the
  same table id was handled earlier by the processor, in this stream session or in an
  earlier one, and \<^verbatim>\<open>Table::open\<close> gave a table for it. After any run of the processor
  since it was created, with any number of reconnects, in which no table-map event for the
  id arrived, the handler's \<^verbatim>\<open>m_tables[id]\<close> is an empty pointer and \<^verbatim>\<open>->enqueue\<close>
  dereferences it. In every state the row event is enqueued exactly when the table map
  holds a table for the id, and is a null dereference otherwise; a table mapped in one
  session still takes the row event after a reconnect.
\<close>

theorem write_rows_without_table_map:
  assumes "process_events table_open new_replicator answers = Inr (st, sent)"
  shows "((\<forall>a \<in> set answers. snd a \<noteq> Some (TABLE_MAP_EVENT tid)) \<longrightarrow>
            process_one_event table_open st (WRITE_ROWS_EVENT_V1 tid) = Inl NullDereference)
       \<and> process_one_event table_open st (WRITE_ROWS_EVENT_V1 tid)
           = (case map_of (m_tables st) tid of
                Some (Some t) \<Rightarrow>
                  Inr (st\<lparr>m_tables :=
                         AList.update tid (Some (table_enqueue (WRITE_ROWS_EVENT_V1 tid) t))
                           (m_tables st)\<rparr>)
              | _ \<Rightarrow> Inl NullDereference)
       \<and> (\<forall>t c c'. table_open (TABLE_MAP_EVENT tid) = Some t \<longrightarrow> m_sql st = Some c \<longrightarrow>
            m_running st \<longrightarrow>
            process_events table_open st
              [(o1, Some (TABLE_MAP_EVENT tid)), (o2, None),
               (Connected c', Some (WRITE_ROWS_EVENT_V1 tid))]
              = Inr (st\<lparr>m_sql := Some c',
                        m_tables :=
                          AList.update tid (Some (table_enqueue (WRITE_ROWS_EVENT_V1 tid) t))
                            (m_tables st)\<rparr>,
                     connect_queries st))"
proof (intro conjI impI allI)
  assume n: "\<forall>a \<in> set answers. snd a \<noteq> Some (TABLE_MAP_EVENT tid)"
  have "map_of (m_tables new_replicator) tid \<in> {None, Some None}"
    by (simp add: new_replicator_def)
  from events_keep_unmapped [OF assms n this]
  have "map_of (m_tables st) tid \<in> {None, Some None}" .
  then show "process_one_event table_open st (WRITE_ROWS_EVENT_V1 tid) = Inl NullDereference"
    by (rule no_table_fault)
next
  show "process_one_event table_open st (WRITE_ROWS_EVENT_V1 tid)
           = (case map_of (m_tables st) tid of
                Some (Some t) \<Rightarrow>
                  Inr (st\<lparr>m_tables :=
                         AList.update tid (Some (table_enqueue (WRITE_ROWS_EVENT_V1 tid) t))
                           (m_tables st)\<rparr>)
              | _ \<Rightarrow> Inl NullDereference)"
    by (simp add: process_one_event_def split: option.splits)
next
  fix t c c'
  assume "table_open (TABLE_MAP_EVENT tid) = Some t" "m_sql st = Some c" "m_running st"
  then show "process_events table_open st
              [(o1, Some (TABLE_MAP_EVENT tid)), (o2, None),
               (Connected c', Some (WRITE_ROWS_EVENT_V1 tid))]
              = Inr (st\<lparr>m_sql := Some c',
                        m_tables :=
                          AList.update tid (Some (table_enqueue (WRITE_ROWS_EVENT_V1 tid) t))
                            (m_tables st)\<rparr>,
                     connect_queries st)"
    by (simp add: process_events_turn_def process_one_event_def connect_def
        connect_queries_def update_conv')
qed


theorem write_rows_without_table_map_witness:
  "process_events (\<lambda>ev. Some \<lparr>queued = [], flushed = []\<rparr>) new_replicator
      [(Connected 1, Some (TABLE_MAP_EVENT 8)), (Connected 1, None),
       (Connected 2, Some (GTID_EVENT 1 101 43))]
     = Inr (new_replicator\<lparr>m_sql := Some 2, m_current_gtid := ''1-101-43'',
              m_tables := [(8, Some \<lparr>queued = [], flushed = []\<rparr>)]\<rparr>,
            connect_queries new_replicator @ connect_queries new_replicator)
   \<and> Some (TABLE_MAP_EVENT 7)
       \<notin> set (map snd [(Connected 1, Some (TABLE_MAP_EVENT 8)), (Connected 1, None),
                        (Connected 2, Some (GTID_EVENT 1 101 43))])
   \<and> process_one_event (\<lambda>ev. Some \<lparr>queued = [], flushed = []\<rparr>)
        (new_replicator\<lparr>m_sql := Some 2, m_current_gtid := ''1-101-43'',
              m_tables := [(8, Some \<lparr>queued = [], flushed = []\<rparr>)]\<rparr>)
        (WRITE_ROWS_EVENT_V1 7) = Inl NullDereference
   \<and> process_events (\<lambda>ev. Some \<lparr>queued = [], flushed = []\<rparr>)
        (new_replicator\<lparr>m_sql := Some 2, m_current_gtid := ''1-101-43'',
              m_tables := [(8, Some \<lparr>queued = [], flushed = []\<rparr>)]\<rparr>)
        [(Connected 2, Some (TABLE_MAP_EVENT 7)), (Connected 2, None),
         (Connected 3, Some (WRITE_ROWS_EVENT_V1 7))]
       = Inr (new_replicator\<lparr>m_sql := Some 3, m_current_gtid := ''1-101-43'',
                m_tables := [(8, Some \<lparr>queued = [], flushed = []\<rparr>),
                             (7, Some \<lparr>queued = [WRITE_ROWS_EVENT_V1 7], flushed = []\<rparr>)]\<rparr>,
              connect_queries new_replicator)"
  using write_rows_without_table_map
    [of "\<lambda>ev. Some \<lparr>queued = [], flushed = []\<rparr>"
      "[(Connected 1, Some (TABLE_MAP_EVENT 8)), (Connected 1, None),
        (Connected 2, Some (GTID_EVENT 1 101 43))]"
      "new_replicator\<lparr>m_sql := Some 2, m_current_gtid := ''1-101-43'',
              m_tables := [(8, Some \<lparr>queued = [], flushed = []\<rparr>)]\<rparr>"
      "connect_queries new_replicator @ connect_queries new_replicator" 7
      "Connected 2" "Connected 2"]
  by (simp add: rpl_eval)

section \<open>Properties of the monitor\<close>

lemma find_monitored_server_Some:
  "find_monitored_server srv mss k = Some i \<Longrightarrow>
     k \<le> i \<and> i - k < length mss \<and> server (mss ! (i - k)) = srv"
proof (induction mss arbitrary: k)
  case Nil
  then show ?case by simp
next
  case (Cons ms mss)
  show ?case
  proof (cases "server ms = srv")
    case True
    with Cons.prems show ?thesis by simp
  next
    case False
    with Cons.prems have "find_monitored_server srv mss (Suc k) = Some i" by simp
    from Cons.IH [OF this] have "Suc k \<le> i" "i - Suc k < length mss"
      "server (mss ! (i - Suc k)) = srv" by simp_all
    moreover from \<open>Suc k \<le> i\<close> have "i - k = Suc (i - Suc k)" by simp
    ultimately show ?thesis by simp
  qed
qed

lemma mon_get_monitored_server_Some:
  "mon_get_monitored_server mon srv = Some i \<Longrightarrow>
     i < length (m_servers mon) \<and> server (m_servers mon ! i) = srv"
  using find_monitored_server_Some [of srv "m_servers mon" 0 i]
  by (simp add: mon_get_monitored_server_def)

lemmas monitor_eval =
  example_monitor_def example_server_def mon_get_monitored_server_def
  set_server_status_def clear_server_status_def set_status_def clear_status_def
  ERR_CANNOT_MODIFY_def WRN_REQUEST_OVERWRITTEN_def Let_def status_bit_defs

section \<open>Claims about the administrator's status changes\<close>

text \<open>
  C9, as stated: the refused change returns the error "the server is monitored, so only the
  maintenance status can be set/cleared manually". The code returns another text: the
  sentence begins with a capital and a second sentence follows it.
\<close>

theorem admin_error_text_counterexample:
  "set_server_status example_monitor 200 SERVER_MASTER (Some [])
     = (False,
        Some (''The server is monitored, so only the maintenance status can be ''
              @ ''set/cleared manually. Status was not modified.''),
        example_monitor\<lparr>mon_log :=
          [LogError (''The server is monitored, so only the maintenance status can be ''
                     @ ''set/cleared manually. Status was not modified.'')]\<rparr>)
   \<and> ''The server is monitored, so only the maintenance status can be ''
       @ ''set/cleared manually. Status was not modified.'' \<noteq> spec_cannot_modify"
  by (simp add: monitor_eval spec_cannot_modify_def)

text \<open>
  C9, amended: while the monitor is RUNNING, setting or clearing a status bit other than
  MAINT and DRAINING returns failure, whether or not the caller asks for the message; the
  error "The server is monitored, so only the maintenance status can be set/cleared
  manually. Status was not modified." is logged and, when the caller asks for it, returned;
  every server's status and request slot stay as they were. A maintenance or drain request
  written while the slot still holds an unread request replaces that request and logs the
  warning that the previous request was overwritten; no status changes.
\<close>

theorem admin_status_change:
  assumes run: "m_state mon = MONITOR_STATE_RUNNING"
    and found: "mon_get_monitored_server mon srv = Some i"
  shows "(bits AND NOT (SERVER_MAINT OR SERVER_BEING_DRAINED) \<noteq> 0 \<longrightarrow>
           set_server_status mon srv bits errmsg_out
             = (False,
                (case errmsg_out of None \<Rightarrow> None | Some s \<Rightarrow> Some ERR_CANNOT_MODIFY),
                mon\<lparr>mon_log := mon_log mon @ [LogError ERR_CANNOT_MODIFY]\<rparr>)
           \<and> clear_server_status mon srv bits errmsg_out
             = (False,
                (case errmsg_out of None \<Rightarrow> None | Some s \<Rightarrow> Some ERR_CANNOT_MODIFY),
                mon\<lparr>mon_log := mon_log mon @ [LogError ERR_CANNOT_MODIFY]\<rparr>))
       \<and> (bits \<noteq> 0 \<longrightarrow> bits AND NOT (SERVER_MAINT OR SERVER_BEING_DRAINED) = 0 \<longrightarrow>
          status_request (m_servers mon ! i) \<noteq> NO_CHANGE \<longrightarrow>
           set_server_status mon srv bits errmsg_out
             = (True, errmsg_out,
                mon\<lparr>m_servers := (m_servers mon)
                        [i := (m_servers mon ! i)
                           \<lparr>status_request := (if bits AND SERVER_MAINT \<noteq> 0 then MAINT_ON
                                                else BEING_DRAINED_ON)\<rparr>],
                     check_status_flag := STATUS_FLAG_CHECK,
                     mon_log := mon_log mon @ [LogWarning WRN_REQUEST_OVERWRITTEN]\<rparr>)
           \<and> clear_server_status mon srv bits errmsg_out
             = (True, errmsg_out,
                mon\<lparr>m_servers := (m_servers mon)
                        [i := (m_servers mon ! i)
                           \<lparr>status_request := (if bits AND SERVER_MAINT \<noteq> 0 then MAINT_OFF
                                                else BEING_DRAINED_OFF)\<rparr>],
                     check_status_flag := STATUS_FLAG_CHECK,
                     mon_log := mon_log mon @ [LogWarning WRN_REQUEST_OVERWRITTEN]\<rparr>)
           \<and> map srv_status (m_servers (snd (snd (set_server_status mon srv bits errmsg_out))))
               = map srv_status (m_servers mon)
           \<and> map srv_status
                (m_servers (snd (snd (clear_server_status mon srv bits errmsg_out))))
               = map srv_status (m_servers mon))
       \<and> ERR_CANNOT_MODIFY
           = ''The server is monitored, so only the maintenance status can be ''
             @ ''set/cleared manually. Status was not modified.''"
proof (intro conjI impI)
  assume "bits AND NOT (SERVER_MAINT OR SERVER_BEING_DRAINED) \<noteq> 0"
  then show "set_server_status mon srv bits errmsg_out
             = (False,
                (case errmsg_out of None \<Rightarrow> None | Some s \<Rightarrow> Some ERR_CANNOT_MODIFY),
                mon\<lparr>mon_log := mon_log mon @ [LogError ERR_CANNOT_MODIFY]\<rparr>)"
    and "clear_server_status mon srv bits errmsg_out
             = (False,
                (case errmsg_out of None \<Rightarrow> None | Some s \<Rightarrow> Some ERR_CANNOT_MODIFY),
                mon\<lparr>mon_log := mon_log mon @ [LogError ERR_CANNOT_MODIFY]\<rparr>)"
    using run found
    by (simp_all add: set_server_status_def clear_server_status_def)
next
  assume "bits \<noteq> 0" and ok: "bits AND NOT (SERVER_MAINT OR SERVER_BEING_DRAINED) = 0"
    and pending: "status_request (m_servers mon ! i) \<noteq> NO_CHANGE"
  from mon_get_monitored_server_Some [OF found] have lt: "i < length (m_servers mon)"
    by simp
  show s: "set_server_status mon srv bits errmsg_out
             = (True, errmsg_out,
                mon\<lparr>m_servers := (m_servers mon)
                        [i := (m_servers mon ! i)
                           \<lparr>status_request := (if bits AND SERVER_MAINT \<noteq> 0 then MAINT_ON
                                                else BEING_DRAINED_ON)\<rparr>],
                     check_status_flag := STATUS_FLAG_CHECK,
                     mon_log := mon_log mon @ [LogWarning WRN_REQUEST_OVERWRITTEN]\<rparr>)"
    using run found ok pending by (simp add: set_server_status_def Let_def)
  show c: "clear_server_status mon srv bits errmsg_out
             = (True, errmsg_out,
                mon\<lparr>m_servers := (m_servers mon)
                        [i := (m_servers mon ! i)
                           \<lparr>status_request := (if bits AND SERVER_MAINT \<noteq> 0 then MAINT_OFF
                                                else BEING_DRAINED_OFF)\<rparr>],
                     check_status_flag := STATUS_FLAG_CHECK,
                     mon_log := mon_log mon @ [LogWarning WRN_REQUEST_OVERWRITTEN]\<rparr>)"
    using run found ok pending by (simp add: clear_server_status_def Let_def)
  show "map srv_status (m_servers (snd (snd (set_server_status mon srv bits errmsg_out))))
               = map srv_status (m_servers mon)"
    unfolding s using lt by (simp add: map_update list_update_same_conv)
  show "map srv_status (m_servers (snd (snd (clear_server_status mon srv bits errmsg_out))))
               = map srv_status (m_servers mon)"
    unfolding c using lt by (simp add: map_update list_update_same_conv)
next
  show "ERR_CANNOT_MODIFY
           = ''The server is monitored, so only the maintenance status can be ''
             @ ''set/cleared manually. Status was not modified.''"
    by (simp add: ERR_CANNOT_MODIFY_def)
qed

theorem admin_status_change_witness:
  "m_state example_monitor = MONITOR_STATE_RUNNING
   \<and> mon_get_monitored_server example_monitor 200 = Some 1
   \<and> SERVER_MASTER AND NOT (SERVER_MAINT OR SERVER_BEING_DRAINED) \<noteq> 0
   \<and> set_server_status example_monitor 200 SERVER_MASTER (Some [])
       = (False, Some ERR_CANNOT_MODIFY,
          example_monitor\<lparr>mon_log := [LogError ERR_CANNOT_MODIFY]\<rparr>)
   \<and> clear_server_status example_monitor 200 SERVER_MASTER None
       = (False, None, example_monitor\<lparr>mon_log := [LogError ERR_CANNOT_MODIFY]\<rparr>)
   \<and> SERVER_BEING_DRAINED \<noteq> 0
   \<and> SERVER_BEING_DRAINED AND NOT (SERVER_MAINT OR SERVER_BEING_DRAINED) = 0
   \<and> mon_get_monitored_server
        (snd (snd (set_server_status example_monitor 200 SERVER_MAINT None))) 200 = Some 1
   \<and> status_request
        (m_servers (snd (snd (set_server_status example_monitor 200 SERVER_MAINT None))) ! 1)
       = MAINT_ON
   \<and> set_server_status (snd (snd (set_server_status example_monitor 200 SERVER_MAINT None)))
        200 SERVER_BEING_DRAINED None
       = (True, None,
          example_monitor
            \<lparr>m_servers := (m_servers example_monitor)
                [1 := (m_servers example_monitor ! 1)\<lparr>status_request := BEING_DRAINED_ON\<rparr>],
             check_status_flag := STATUS_FLAG_CHECK,
             mon_log := [LogWarning WRN_REQUEST_OVERWRITTEN]\<rparr>)"
  using admin_status_change [of example_monitor 200 1 SERVER_MASTER "Some []"]
    admin_status_change [of example_monitor 200 1 SERVER_MASTER None]
    admin_status_change
      [of "snd (snd (set_server_status example_monitor 200 SERVER_MAINT None))" 200 1
        SERVER_BEING_DRAINED None]
  by (simp add: monitor_eval)

subsection \<open>Numbers in the journal\<close>

lemma length_set_bytes [simp]: "length (set_bytes v n) = n"
  by (simp add: set_bytes_def)

lemma set_bytes_Suc:
  "set_bytes v (Suc n) = ucast v # set_bytes (drop_bit 8 v) n"
proof -
  have "[0..<Suc n] = 0 # map Suc [0..<n]"
    by (simp add: upt_conv_Cons map_Suc_upt del: upt_Suc)
  then show ?thesis
    by (simp add: set_bytes_def comp_def drop_bit_drop_bit add.commute del: upt_Suc)
qed

lemma take_bit_split:
  "take_bit (m + n) v = take_bit m v OR push_bit m (take_bit n (drop_bit m v))"
  for v :: "'a::len word"
  by (rule bit_word_eqI) (auto simp add: bit_simps)

lemma ucast_byte:
  "(ucast (ucast v :: byte) :: 'a::len word) = take_bit 8 v" for v :: "'a::len word"
  by (rule bit_word_eqI) (auto simp add: bit_simps)

lemma get_set_bytes:
  "(get_bytes (set_bytes v n @ tl0) n :: 'a::len word) = take_bit (8 * n) v"
  for v :: "'a::len word"
proof (induction n arbitrary: v)
  case 0
  show ?case by (simp add: get_bytes_def)
next
  case (Suc n)
  have "(get_bytes (set_bytes v (Suc n) @ tl0) (Suc n) :: 'a word)
        = ucast (ucast v :: byte) OR push_bit 8 (get_bytes (set_bytes (drop_bit 8 v) n @ tl0) n)"
    by (simp add: set_bytes_Suc get_bytes_def)
  also have "\<dots> = take_bit 8 v OR push_bit 8 (take_bit (8 * n) (drop_bit 8 v))"
    by (simp add: Suc.IH ucast_byte)
  also have "\<dots> = take_bit (8 + 8 * n) v"
    by (rule take_bit_split [symmetric])
  finally show ?case by simp
qed

lemma get_set_byte4: "mxs_get_byte4 (mxs_set_byte4 v @ tl0) = v"
  using get_set_bytes [of v 4 tl0]
  by (simp add: mxs_get_byte4_def mxs_set_byte4_def take_bit_word_eq_self)

lemma get_set_byteN: "get_byteN (set_byteN v 8 @ tl0) 8 = v"
  using get_set_bytes [of v 8 tl0]
  by (simp add: get_byteN_def set_byteN_def take_bit_word_eq_self)


subsection \<open>Reading the records of the journal\<close>

lemma find_named_Some:
  "find_named name dbs k = Some i \<Longrightarrow>
     k \<le> i \<and> i - k < length dbs \<and> srv_name (dbs ! (i - k)) = name"
proof (induction dbs arbitrary: k)
  case Nil
  then show ?case by simp
next
  case (Cons db dbs)
  show ?case
  proof (cases "srv_name db = name")
    case True
    with Cons.prems show ?thesis by simp
  next
    case False
    with Cons.prems have "find_named name dbs (Suc k) = Some i" by simp
    from Cons.IH [OF this] have "Suc k \<le> i" "i - Suc k < length dbs"
      "srv_name (dbs ! (i - Suc k)) = name" by simp_all
    moreover from \<open>Suc k \<le> i\<close> have "i - k = Suc (i - Suc k)" by simp
    ultimately show ?thesis by simp
  qed
qed

lemma find_named_distinct:
  assumes "distinct (map srv_name dbs)" "j < length dbs"
  shows "find_named (srv_name (dbs ! j)) dbs k = Some (k + j)"
  using assms
proof (induction dbs arbitrary: j k)
  case Nil
  then show ?case by simp
next
  case (Cons db dbs)
  show ?case
  proof (cases j)
    case 0
    then show ?thesis by simp
  next
    case (Suc j')
    with Cons.prems have d: "distinct (map srv_name dbs)" and l: "j' < length dbs"
      and n: "srv_name db \<noteq> srv_name (dbs ! j')"
      by auto
    from Cons.IH [OF d l, of "Suc k"] n Suc show ?thesis by simp
  qed
qed

lemma find_named_None:
  "name \<notin> set (map srv_name dbs) \<Longrightarrow> find_named name dbs k = None"
  by (induction dbs arbitrary: k) auto

lemma takeWhile_name:
  "0 \<notin> set name \<Longrightarrow> takeWhile (\<lambda>b. b \<noteq> 0) (name @ 0 # bs) = name" for name :: "byte list"
  by (induction name) auto

lemma strlen_name:
  "0 \<notin> set name \<Longrightarrow> strlen (name @ 0 # bs) = length name" for name :: "byte list"
  by (simp add: strlen_def takeWhile_name)

lemma process_server_record:
  assumes "0 \<notin> set (srv_name stored)"
  shows "process_data_file servers master (server_record stored @ bs) trailer
         = process_data_file (apply_server_record servers stored) master bs trailer"
proof -
  let ?name = "srv_name stored" and ?st = "set_byteN (srv_status stored) 8"
  have tl_eq: "tl (server_record stored @ bs) = ?name @ 0 # (?st @ bs)"
    by (simp add: server_record_def MMB_LEN_SERVER_STATUS_def)
  have ps: "process_server servers (?name @ 0 # (?st @ bs)) trailer
            = Inr (apply_server_record servers stored)"
    using assms get_set_byteN [of "srv_status stored" "bs @ trailer"]
    by (simp add: process_server_def apply_server_record_def takeWhile_name strlen_name
        MMB_LEN_SERVER_STATUS_def load_status_def Let_def set_byteN_def
        split: option.splits)
  have dr: "drop (strlen (?name @ 0 # (?st @ bs)) + 1 + MMB_LEN_SERVER_STATUS)
              (?name @ 0 # (?st @ bs)) = bs"
    using assms by (simp add: strlen_name MMB_LEN_SERVER_STATUS_def set_byteN_def)
  show ?thesis
    apply (subst process_data_file.simps)
    apply (simp only: tl_eq ps dr)
    apply (simp add: server_record_def SVT_SERVER_def)
    done
qed


lemma process_master_record:
  assumes "0 \<notin> set (srv_name stored)"
  shows "process_data_file servers master (master_record stored @ bs) trailer
         = process_data_file servers
             (case find_named (srv_name stored) servers 0 of None \<Rightarrow> master | Some i \<Rightarrow> Some i)
             bs trailer"
proof -
  let ?name = "srv_name stored"
  have tl_eq: "tl (master_record stored @ bs) = ?name @ 0 # bs"
    by (simp add: master_record_def)
  have pm: "process_master servers master (?name @ 0 # bs)
            = (case find_named ?name servers 0 of None \<Rightarrow> master | Some i \<Rightarrow> Some i)"
    using assms by (simp add: process_master_def takeWhile_name)
  have dr: "drop (strlen (?name @ 0 # bs) + 1) (?name @ 0 # bs) = bs"
    using assms by (simp add: strlen_name)
  show ?thesis
    apply (subst process_data_file.simps)
    apply (simp only: tl_eq pm dr)
    apply (simp add: master_record_def SVT_SERVER_def SVT_MASTER_def)
    done
qed

lemma process_server_records:
  assumes "\<forall>s \<in> set stored. 0 \<notin> set (srv_name s)"
  shows "process_data_file servers master (concat (map server_record stored) @ bs) trailer
         = process_data_file (foldl apply_server_record servers stored) master bs trailer"
  using assms
proof (induction stored arbitrary: servers)
  case Nil
  show ?case by simp
next
  case (Cons s stored)
  have "process_data_file servers master
          (concat (map server_record (s # stored)) @ bs) trailer
        = process_data_file servers master
          (server_record s @ (concat (map server_record stored) @ bs)) trailer"
    by simp
  also have "\<dots> = process_data_file (apply_server_record servers s) master
                     (concat (map server_record stored) @ bs) trailer"
    using Cons.prems by (intro process_server_record) simp
  also have "\<dots> = process_data_file (foldl apply_server_record (apply_server_record servers s)
                       stored) master bs trailer"
    using Cons.prems by (intro Cons.IH) simp
  finally show ?case by simp
qed

lemma apply_server_record_names:
  "map srv_name (apply_server_record servers s) = map srv_name servers"
proof (cases "find_named (srv_name s) servers 0")
  case None
  then show ?thesis by (simp add: apply_server_record_def)
next
  case (Some i)
  from find_named_Some [OF Some] have "i < length servers" by simp
  then show ?thesis
    by (simp add: apply_server_record_def Some map_update load_status_def
        list_update_same_conv)
qed

lemma foldl_apply_records:
  assumes "map srv_name servers = map srv_name stored"
    and "distinct (map srv_name stored)"
  shows "foldl apply_server_record servers stored
         = map2 (\<lambda>db s. load_status (srv_status s) db) servers stored"
proof -
  have gen: "\<And>servers. distinct (map srv_name servers) \<Longrightarrow> distinct (map srv_name ss) \<Longrightarrow>
      length (foldl apply_server_record servers ss) = length servers
      \<and> (\<forall>j < length servers.
            foldl apply_server_record servers ss ! j
            = (case find (\<lambda>s. srv_name s = srv_name (servers ! j)) ss of
                 None \<Rightarrow> servers ! j
               | Some s \<Rightarrow> load_status (srv_status s) (servers ! j)))" for ss
  proof (induction ss)
    case Nil
    show ?case by simp
  next
    case (Cons s ss)
    let ?a = "apply_server_record servers s"
    have names: "map srv_name ?a = map srv_name servers" by (rule apply_server_record_names)
    then have len: "length ?a = length servers" by (metis length_map)
    have da: "distinct (map srv_name ?a)" using names Cons.prems(1) by simp
    have ds: "distinct (map srv_name ss)" using Cons.prems(2) by simp
    from Cons.IH [OF da ds]
    have ih_len: "length (foldl apply_server_record ?a ss) = length ?a"
      and ih: "\<forall>j < length ?a. foldl apply_server_record ?a ss ! j
            = (case find (\<lambda>s. srv_name s = srv_name (?a ! j)) ss of
                 None \<Rightarrow> ?a ! j
               | Some s \<Rightarrow> load_status (srv_status s) (?a ! j))" by simp_all
    have namej: "srv_name (?a ! j) = srv_name (servers ! j)" if "j < length servers" for j
      using names that by (metis len nth_map)
    have notin: "find (\<lambda>x. srv_name x = srv_name s) ss = None"
    proof -
      from Cons.prems(2) have "srv_name s \<notin> srv_name ` set ss" by simp
      then have "\<forall>x \<in> set ss. srv_name x \<noteq> srv_name s" by (metis imageI)
      then show ?thesis by (simp add: find_None_iff)
    qed
    have aj: "?a ! j = (if srv_name (servers ! j) = srv_name s
                        then load_status (srv_status s) (servers ! j) else servers ! j)"
      if j: "j < length servers" for j
    proof (cases "find_named (srv_name s) servers 0")
      case None
      have "srv_name s \<notin> set (map srv_name servers)"
      proof
        assume "srv_name s \<in> set (map srv_name servers)"
        then obtain k where "k < length servers" "srv_name (servers ! k) = srv_name s"
          by (auto simp add: in_set_conv_nth)
        with find_named_distinct [OF Cons.prems(1), of k 0] None show False by simp
      qed
      with j have "srv_name (servers ! j) \<noteq> srv_name s" by (metis nth_map nth_mem length_map)
      with None show ?thesis by (simp add: apply_server_record_def)
    next
      case (Some i)
      from find_named_Some [OF Some] have i: "i < length servers"
        and ni: "srv_name (servers ! i) = srv_name s" by simp_all
      have "srv_name (servers ! j) = srv_name s \<longleftrightarrow> j = i"
        using Cons.prems(1) i j ni by (metis distinct_conv_nth length_map nth_map)
      with Some i j show ?thesis by (simp add: apply_server_record_def)
    qed
    show ?case
    proof (intro conjI allI impI)
      show "length (foldl apply_server_record servers (s # ss)) = length servers"
        using ih_len len by simp
    next
      fix j assume j: "j < length servers"
      with ih len have r: "foldl apply_server_record ?a ss ! j
            = (case find (\<lambda>s. srv_name s = srv_name (?a ! j)) ss of
                 None \<Rightarrow> ?a ! j
               | Some s \<Rightarrow> load_status (srv_status s) (?a ! j))" by simp
      show "foldl apply_server_record servers (s # ss) ! j
            = (case find (\<lambda>s. srv_name s = srv_name (servers ! j)) (s # ss) of
                 None \<Rightarrow> servers ! j
               | Some s \<Rightarrow> load_status (srv_status s) (servers ! j))"
      proof (cases "srv_name (servers ! j) = srv_name s")
        case True
        with r namej [OF j] notin aj [OF j] show ?thesis by (simp split: option.splits)
      next
        case False
        then have "srv_name s \<noteq> srv_name (servers ! j)" by simp
        with r namej [OF j] aj [OF j] False show ?thesis by (simp split: option.splits)
      qed
    qed
  qed
  have ds: "distinct (map srv_name servers)" using assms by simp
  have len: "length servers = length stored" using assms(1) by (metis length_map)
  from gen [OF ds assms(2)]
  have l: "length (foldl apply_server_record servers stored) = length servers"
    and v: "\<forall>j < length servers.
            foldl apply_server_record servers stored ! j
            = (case find (\<lambda>s. srv_name s = srv_name (servers ! j)) stored of
                 None \<Rightarrow> servers ! j
               | Some s \<Rightarrow> load_status (srv_status s) (servers ! j))" by simp_all
  have f: "find (\<lambda>s. srv_name s = srv_name (servers ! j)) stored = Some (stored ! j)"
    if j: "j < length servers" for j
  proof -
    have nj: "srv_name (servers ! j) = srv_name (stored ! j)"
      using assms(1) j len by (metis nth_map)
    have "\<forall>k < j. srv_name (stored ! k) \<noteq> srv_name (stored ! j)"
      using assms(2) j len by (auto simp add: distinct_conv_nth)
    with j len nj show ?thesis
      by (auto simp add: find_Some_iff intro!: exI [of _ j])
  qed
  show ?thesis
  proof (rule nth_equalityI)
    show "length (foldl apply_server_record servers stored)
          = length (map2 (\<lambda>db s. load_status (srv_status s) db) servers stored)"
      using l len by simp
  next
    fix j assume "j < length (foldl apply_server_record servers stored)"
    with l have j: "j < length servers" by simp
    with v f [OF j] len show "foldl apply_server_record servers stored ! j
          = map2 (\<lambda>db s. load_status (srv_status s) db) servers stored ! j"
      by simp
  qed
qed


subsection \<open>Reading a journal that the monitor wrote\<close>

lemma length_server_records:
  "length (concat (map server_record ss))
   = (\<Sum>db \<leftarrow> ss. MMB_LEN_VALUE_TYPE + length (srv_name db) + 1 + MMB_LEN_SERVER_STATUS)"
  by (induction ss)
     (simp_all add: server_record_def set_byteN_def MMB_LEN_VALUE_TYPE_def
        MMB_LEN_SERVER_STATUS_def)

lemma foldl_apply_names:
  "map srv_name (foldl apply_server_record servers ss) = map srv_name servers"
  by (induction ss arbitrary: servers) (simp_all add: apply_server_record_names)

lemma process_data_file_Nil:
  "process_data_file servers master [] trailer = Inr (True, servers, master, [])"
  by (subst process_data_file.simps) simp

lemma load_journal_of:
  assumes v: "valid_journal_state S"
    and names: "map srv_name (m_servers T) = map srv_name (m_servers S)"
    and jfile: "journal_file T = Some (journal_of written_crc S)"
  shows "load_server_journal crc32 True T
         = (if crc32 (journal_body S) = written_crc (journal_body S)
            then Inr (T\<lparr>m_servers := map2 (\<lambda>db s. load_status (srv_status s) db)
                                  (m_servers T) (m_servers S),
                 m_master := (case m_master S of None \<Rightarrow> m_master T | Some m \<Rightarrow> Some m),
                 mon_log := mon_log T @ [LogNotice ''Loaded server states from journal file'']\<rparr>)
            else Inr (T\<lparr>mon_log := mon_log T
                        @ [LogError ''CRC32 mismatch in journal file. Ignoring.'']\<rparr>))"
proof -
  define recs where "recs = concat (map server_record (m_servers S))"
  define mrec where "mrec = (case m_master S of None \<Rightarrow> []
                             | Some m \<Rightarrow> master_record (m_servers S ! m))"
  define n where "n = journal_size S (m_master S)"
  define body where "body = MMB_SCHEMA_VERSION # recs @ mrec"
  define crc where "crc = written_crc body"
  have jb: "journal_body S = body" by (simp add: journal_body_def body_def recs_def mrec_def)
  from v have dist: "distinct (map srv_name (m_servers S))"
    and nul: "\<forall>db \<in> set (m_servers S). 0 \<notin> set (srv_name db)"
    and mst: "case m_master S of None \<Rightarrow> True | Some m \<Rightarrow> m < length (m_servers S)"
    and small: "n < 2 ^ 32"
    by (simp_all add: valid_journal_state_def n_def)
  have n_eq: "n = length body + 4"
    by (cases "m_master S")
       (simp_all add: n_def journal_size_def body_def recs_def mrec_def length_server_records
          master_record_def MMB_LEN_SCHEMA_VERSION_def MMB_LEN_CRC32_def MMB_LEN_VALUE_TYPE_def)
  have un: "unat (of_nat n :: 32 word) = n"
    using small by (simp add: unat_of_nat)
  have "(of_nat n :: 32 word) - of_nat MMB_LEN_CRC32 = of_nat (n - 4)"
    using n_eq by (simp add: MMB_LEN_CRC32_def)
  moreover have "n - 4 < 2 ^ 32" using small by simp
  ultimately have un4: "unat ((of_nat n :: 32 word) - of_nat MMB_LEN_CRC32) = n - 4"
    by (simp add: unat_of_nat)
  have len4: "length (mxs_set_byte4 w) = 4" for w by (simp add: mxs_set_byte4_def)
  have bl: "length body = n - 4" "4 \<le> n" "n \<noteq> 0" using n_eq by simp_all
  have w: "mxs_set_byte4 (of_nat n) @ [MMB_SCHEMA_VERSION] @ recs @ mrec
           = mxs_set_byte4 (of_nat n) @ body"
    by (simp add: body_def)
  have tk: "take (n - 4) (drop MMB_LEN_BYTES (mxs_set_byte4 (of_nat n) @ body)) = body"
    using bl(1) by (simp add: MMB_LEN_BYTES_def len4)
  have "journal_of written_crc S
        = (mxs_set_byte4 (of_nat n) @ [MMB_SCHEMA_VERSION] @ recs @ mrec)
          @ mxs_set_byte4 (written_crc (take (unat ((of_nat n :: 32 word) - of_nat MMB_LEN_CRC32))
              (drop MMB_LEN_BYTES
                 (mxs_set_byte4 (of_nat n) @ [MMB_SCHEMA_VERSION] @ recs @ mrec))))"
    by (simp only: journal_of_def store_data_def Let_def n_def recs_def mrec_def)
  then have jf: "journal_of written_crc S = mxs_set_byte4 (of_nat n) @ body @ mxs_set_byte4 crc"
    by (simp only: w un4 tk crc_def append_assoc)
  define pl where "pl = body @ mxs_set_byte4 crc"
  have sz: "unat (mxs_get_byte4 (journal_of written_crc S)) = n"
    unfolding jf using get_set_byte4 [of "of_nat n" "body @ mxs_set_byte4 crc"] un by simp
  have rest: "drop MMB_LEN_BYTES (journal_of written_crc S) = pl"
    unfolding jf pl_def by (simp add: MMB_LEN_BYTES_def len4)
  have lenrest: "length pl = n" using n_eq by (simp add: len4 pl_def)
  have crc_ok: "mxs_get_byte4 (mxs_set_byte4 crc) = crc"
    using get_set_byte4 [of crc "[]"] by simp
  have names': "map srv_name (foldl apply_server_record (m_servers T) (m_servers S))
               = map srv_name (m_servers S)"
    using names by (simp add: foldl_apply_names)
  have parse: "process_data_file (m_servers T) (m_master T) (recs @ mrec) (mxs_set_byte4 crc)
        = Inr (True, foldl apply_server_record (m_servers T) (m_servers S),
               (case m_master S of None \<Rightarrow> m_master T | Some m \<Rightarrow> Some m), [])"
  proof -
    have one: "process_data_file (m_servers T) (m_master T) (recs @ mrec) (mxs_set_byte4 crc)
        = process_data_file (foldl apply_server_record (m_servers T) (m_servers S))
            (m_master T) mrec (mxs_set_byte4 crc)"
      unfolding recs_def using nul by (rule process_server_records)
    show ?thesis
    proof (cases "m_master S")
      case None
      then show ?thesis using one by (simp add: mrec_def process_data_file_Nil)
    next
      case (Some m)
      with mst have m: "m < length (m_servers S)" by simp
      then have z: "0 \<notin> set (srv_name (m_servers S ! m))" using nul by simp
      have lenf: "m < length (foldl apply_server_record (m_servers T) (m_servers S))"
        using names' m by (metis length_map)
      have "srv_name (foldl apply_server_record (m_servers T) (m_servers S) ! m)
            = srv_name (m_servers S ! m)"
        using names' lenf by (metis nth_map m)
      moreover have "distinct (map srv_name
                       (foldl apply_server_record (m_servers T) (m_servers S)))"
        using names' dist by simp
      ultimately have f: "find_named (srv_name (m_servers S ! m))
                   (foldl apply_server_record (m_servers T) (m_servers S)) 0 = Some m"
        using find_named_distinct [OF _ lenf, of 0] by simp
      have "process_data_file (foldl apply_server_record (m_servers T) (m_servers S))
              (m_master T) (master_record (m_servers S ! m)) (mxs_set_byte4 crc)
            = process_data_file (foldl apply_server_record (m_servers T) (m_servers S))
                (Some m) [] (mxs_set_byte4 crc)"
        using process_master_record [OF z,
            of "foldl apply_server_record (m_servers T) (m_servers S)" "m_master T" "[]"
              "mxs_set_byte4 crc"] f
        by simp
      with one Some show ?thesis by (simp add: mrec_def process_data_file_Nil)
    qed
  qed
  have fold_eq: "foldl apply_server_record (m_servers T) (m_servers S)
                 = map2 (\<lambda>db s. load_status (srv_status s) db) (m_servers T) (m_servers S)"
    using names dist by (rule foldl_apply_records)
  have data: "take n pl = pl" using lenrest by simp
  have tk2: "take (n - 4) pl = body" using bl(1) by (simp add: pl_def)
  have dr2: "drop (n - 4) pl = mxs_set_byte4 crc" using bl(1) by (simp add: pl_def)
  have hd_body: "hd pl = MMB_SCHEMA_VERSION" by (simp add: body_def pl_def)
  have dr1: "drop MMB_LEN_SCHEMA_VERSION body = recs @ mrec"
    by (simp add: body_def MMB_LEN_SCHEMA_VERSION_def)
  have wc: "written_crc body = crc" by (simp add: crc_def)
  have lenfile: "\<not> length (journal_of written_crc S) < MMB_LEN_BYTES"
    unfolding jf by (simp add: MMB_LEN_BYTES_def len4)
  show ?thesis
    unfolding load_server_journal_def jfile
    using bl(2,3) lenfile
    by (simp add: Let_def sz rest lenrest data tk2 dr2 hd_body dr1 MMB_LEN_CRC32_def
        crc_ok jb wc parse fold_eq)
qed

subsection \<open>What the monitor writes, and a file of another version\<close>

lemma valid_journal_size:
  "valid_journal_state S \<Longrightarrow>
     unat (of_nat (journal_size S (m_master S)) :: 32 word) = journal_size S (m_master S)"
  by (simp add: valid_journal_state_def unat_of_nat)

lemma store_server_journal_eq:
  assumes v: "valid_journal_state S"
  shows "store_server_journal crc32 SHA1 IoOk S (m_master S)
         = (if m_journal_hash S = journal_hash crc32 SHA1 S then S
            else S\<lparr>m_journal_hash := journal_hash crc32 SHA1 S,
                   journal_file := Some (journal_of crc32 S)\<rparr>)"
  by (simp add: store_server_journal_def Let_def journal_hash_def journal_of_def
      valid_journal_size [OF v])

lemma journal_of_shape:
  assumes v: "valid_journal_state S"
  shows "journal_of crc S
           = mxs_set_byte4 (of_nat (length (journal_body S) + 4)) @ journal_body S
             @ mxs_set_byte4 (crc (journal_body S))"
    and "journal_size S (m_master S) = length (journal_body S) + 4"
    and "length (journal_body S) + 4 < 2 ^ 32"
proof -
  define recs where "recs = concat (map server_record (m_servers S))"
  define mrec where "mrec = (case m_master S of None \<Rightarrow> []
                             | Some m \<Rightarrow> master_record (m_servers S ! m))"
  define n where "n = journal_size S (m_master S)"
  define body where "body = MMB_SCHEMA_VERSION # recs @ mrec"
  have jb: "journal_body S = body" by (simp add: journal_body_def body_def recs_def mrec_def)
  from v have small: "n < 2 ^ 32" by (simp add: valid_journal_state_def n_def)
  have n_eq: "n = length body + 4"
    by (cases "m_master S")
       (simp_all add: n_def journal_size_def body_def recs_def mrec_def length_server_records
          master_record_def MMB_LEN_SCHEMA_VERSION_def MMB_LEN_CRC32_def MMB_LEN_VALUE_TYPE_def)
  have "(of_nat n :: 32 word) - of_nat MMB_LEN_CRC32 = of_nat (n - 4)"
    using n_eq by (simp add: MMB_LEN_CRC32_def)
  moreover have "n - 4 < 2 ^ 32" using small by simp
  ultimately have un4: "unat ((of_nat n :: 32 word) - of_nat MMB_LEN_CRC32) = n - 4"
    by (simp add: unat_of_nat)
  have len4: "length (mxs_set_byte4 w) = 4" for w by (simp add: mxs_set_byte4_def)
  have bl: "length body = n - 4" using n_eq by simp
  have w: "mxs_set_byte4 (of_nat n) @ [MMB_SCHEMA_VERSION] @ recs @ mrec
           = mxs_set_byte4 (of_nat n) @ body"
    by (simp add: body_def)
  have tk: "take (n - 4) (drop MMB_LEN_BYTES (mxs_set_byte4 (of_nat n) @ body)) = body"
    using bl by (simp add: MMB_LEN_BYTES_def len4)
  have "journal_of crc S
        = (mxs_set_byte4 (of_nat n) @ [MMB_SCHEMA_VERSION] @ recs @ mrec)
          @ mxs_set_byte4 (crc (take (unat ((of_nat n :: 32 word) - of_nat MMB_LEN_CRC32))
              (drop MMB_LEN_BYTES
                 (mxs_set_byte4 (of_nat n) @ [MMB_SCHEMA_VERSION] @ recs @ mrec))))"
    by (simp only: journal_of_def store_data_def Let_def n_def recs_def mrec_def)
  then have jf: "journal_of crc S = mxs_set_byte4 (of_nat n) @ body @ mxs_set_byte4 (crc body)"
    by (simp only: w un4 tk append_assoc)
  show "journal_of crc S
           = mxs_set_byte4 (of_nat (length (journal_body S) + 4)) @ journal_body S
             @ mxs_set_byte4 (crc (journal_body S))"
    using jf n_eq by (simp add: jb)
  show "journal_size S (m_master S) = length (journal_body S) + 4"
    using n_eq by (simp add: jb n_def)
  show "length (journal_body S) + 4 < 2 ^ 32"
    using small n_eq by (simp add: jb)
qed

lemma load_wrong_version:
  assumes v: "valid_journal_state S"
    and ver: "ver \<noteq> MMB_SCHEMA_VERSION"
  shows "load_server_journal crc32 True (T\<lparr>journal_file := Some ((journal_of crc S)[4 := ver])\<rparr>)
         = Inr (T\<lparr>journal_file := Some ((journal_of crc S)[4 := ver]),
                  mon_log := mon_log T @ [LogError ''Unknown journal schema version'']\<rparr>)"
proof -
  define n where "n = length (journal_body S) + 4"
  define tl0 where "tl0 = tl (journal_body S) @ mxs_set_byte4 (crc (journal_body S))"
  define pl where "pl = ver # tl0"
  define jfile where "jfile = mxs_set_byte4 (of_nat n) @ pl"
  have len4: "length (mxs_set_byte4 w) = 4" for w by (simp add: mxs_set_byte4_def)
  have body: "journal_body S = MMB_SCHEMA_VERSION # tl (journal_body S)"
    by (simp add: journal_body_def)
  have small: "n < 2 ^ 32" using journal_of_shape(3) [OF v] by (simp add: n_def)
  have "journal_body S @ mxs_set_byte4 (crc (journal_body S)) = MMB_SCHEMA_VERSION # tl0"
    unfolding tl0_def by (subst body) simp
  with journal_of_shape(1) [OF v, of crc]
  have "journal_of crc S = mxs_set_byte4 (of_nat n) @ (MMB_SCHEMA_VERSION # tl0)"
    by (simp only: n_def)
  then have f: "(journal_of crc S)[4 := ver] = jfile"
    by (simp add: list_update_append len4 jfile_def pl_def)
  have un: "unat (of_nat n :: 32 word) = n" using small by (simp add: unat_of_nat)
  have sz: "unat (mxs_get_byte4 jfile) = n"
    unfolding jfile_def using get_set_byte4 [of "of_nat n" pl] un by simp
  have "length (journal_body S) = Suc (length (tl (journal_body S)))"
    by (subst body) simp
  then have ln: "length pl = n" by (simp add: n_def tl0_def pl_def len4)
  have n0: "n \<noteq> 0" by (simp add: n_def)
  have lf: "\<not> length jfile < MMB_LEN_BYTES" by (simp add: jfile_def MMB_LEN_BYTES_def len4)
  have rest: "drop MMB_LEN_BYTES jfile = pl" by (simp add: jfile_def MMB_LEN_BYTES_def len4)
  have data: "take n pl = pl" using ln by simp
  have hd_pl: "hd pl = ver" by (simp add: pl_def)
  show ?thesis
    unfolding f load_server_journal_def
    using ver n0 lf by (simp add: Let_def sz rest ln data hd_pl)
qed

lemma restarted_names:
  "map srv_name (m_servers (restarted f S)) = map srv_name (m_servers S)"
  by (simp add: restarted_def comp_def)

lemma map2_load_status:
  assumes "length ts = length ss"
  shows "map srv_status (map2 (\<lambda>db s. load_status (srv_status s) db) ts ss)
           = map2 (\<lambda>t s. srv_status t OR srv_status s) ts ss"
    and "map srv_name (map2 (\<lambda>db s. load_status (srv_status s) db) ts ss) = map srv_name ts"
    and "map mon_prev_status (map2 (\<lambda>db s. load_status (srv_status s) db) ts ss)
           = map srv_status ss"
  using assms
  by (induction ts ss rule: list_induct2) (simp_all add: load_status_def)

lemma map2_or_blank:
  "map2 (\<lambda>t s. srv_status t OR srv_status s)
     (map (\<lambda>db. db\<lparr>srv_status := 0, mon_prev_status := 0, pending_status := 0\<rparr>) ss) ss
   = map srv_status ss"
  by (induction ss) simp_all

lemma map2_or_same:
  "map2 (\<lambda>t s. srv_status t OR srv_status s) ss ss = map srv_status ss"
  by (induction ss) simp_all

lemma upt_4: "[0..<4] = [0, 1, 2, 3]"
  by code_simp

lemma upt_8: "[0..<8] = [0, 1, 2, 3, 4, 5, 6, 7]"
  by code_simp

lemmas journal_eval = upt_4 upt_8
  journal_of_def store_data_def journal_size_def server_record_def master_record_def
  mxs_set_byte4_def mxs_get_byte4_def set_byteN_def get_byteN_def set_bytes_def get_bytes_def
  MMB_SCHEMA_VERSION_def MMB_LEN_BYTES_def MMB_LEN_SCHEMA_VERSION_def MMB_LEN_CRC32_def
  MMB_LEN_VALUE_TYPE_def MMB_LEN_SERVER_STATUS_def SVT_SERVER_def SVT_MASTER_def
  byte_sum_def valid_journal_state_def example_monitor_def example_server_def Let_def
  status_bit_defs

lemma example_journal:
  "journal_of byte_sum example_monitor
   = [30, 0, 0, 0, 2, 1, 65, 0, 9, 0, 0, 0, 0, 0, 0, 0, 1, 66, 0, 17, 0, 0, 0, 0, 0, 0, 0,
      2, 65, 0, 228, 0, 0, 0]"
  by (simp add: journal_eval)

lemma map2_or_zero:
  assumes "length ts = length ss" "\<forall>t \<in> set ts. srv_status t = 0"
  shows "map2 (\<lambda>t s. srv_status t OR srv_status s) ts ss = map srv_status ss"
  using assms by (induction ts ss rule: list_induct2) simp_all


section \<open>Claims about the journal\<close>

text \<open>
  C6, as stated: the journal written for a state S and read back restores exactly S. The
  code differs: the reader adds the stored flags to the flags a server has when the journal
  is loaded. Here the journal is written for the example monitor (A the master, B a slave)
  and loaded by the stopped monitor in which the administrator has exchanged the roles:
  both servers end as master and slave at once, which is neither state.
\<close>

theorem journal_restore_counterexample:
  "store_server_journal byte_sum (\<lambda>bs. bs) IoOk example_monitor (m_master example_monitor)
     = example_monitor
         \<lparr>m_journal_hash := [30, 0, 0, 0, 2, 1, 65, 0, 9, 0, 0, 0, 0, 0, 0, 0, 1, 66, 0, 17,
                              0, 0, 0, 0, 0, 0, 0, 2, 65, 0],
          journal_file := Some [30, 0, 0, 0, 2, 1, 65, 0, 9, 0, 0, 0, 0, 0, 0, 0, 1, 66, 0,
                                17, 0, 0, 0, 0, 0, 0, 0, 2, 65, 0, 228, 0, 0, 0]\<rparr>
   \<and> load_server_journal byte_sum True
        (stopped_monitor
           \<lparr>journal_file := Some [30, 0, 0, 0, 2, 1, 65, 0, 9, 0, 0, 0, 0, 0, 0, 0, 1, 66, 0,
                                  17, 0, 0, 0, 0, 0, 0, 0, 2, 65, 0, 228, 0, 0, 0]\<rparr>)
     = Inr (stopped_monitor
              \<lparr>journal_file := Some [30, 0, 0, 0, 2, 1, 65, 0, 9, 0, 0, 0, 0, 0, 0, 0, 1, 66,
                                     0, 17, 0, 0, 0, 0, 0, 0, 0, 2, 65, 0, 228, 0, 0, 0],
               m_servers :=
                 [(example_server 100 [0x41] (SERVER_RUNNING OR SERVER_MASTER OR SERVER_SLAVE))
                    \<lparr>mon_prev_status := SERVER_RUNNING OR SERVER_MASTER\<rparr>,
                  (example_server 200 [0x42] (SERVER_RUNNING OR SERVER_MASTER OR SERVER_SLAVE))
                    \<lparr>mon_prev_status := SERVER_RUNNING OR SERVER_SLAVE\<rparr>],
               m_master := Some 0,
               mon_log := [LogNotice ''Loaded server states from journal file'']\<rparr>)
   \<and> map srv_status (m_servers example_monitor)
       = [SERVER_RUNNING OR SERVER_MASTER, SERVER_RUNNING OR SERVER_SLAVE]"
proof -
  have v: "valid_journal_state example_monitor" by (simp add: journal_eval)
  have h: "journal_hash byte_sum (\<lambda>bs. bs) example_monitor
           = [30, 0, 0, 0, 2, 1, 65, 0, 9, 0, 0, 0, 0, 0, 0, 0, 1, 66, 0, 17,
              0, 0, 0, 0, 0, 0, 0, 2, 65, 0]"
    unfolding journal_hash_def example_journal
    by (simp add: journal_size_def example_monitor_def example_server_def
        MMB_LEN_SCHEMA_VERSION_def MMB_LEN_CRC32_def MMB_LEN_VALUE_TYPE_def
        MMB_LEN_SERVER_STATUS_def)
  have one: "store_server_journal byte_sum (\<lambda>bs. bs) IoOk example_monitor
               (m_master example_monitor)
     = example_monitor
         \<lparr>m_journal_hash := [30, 0, 0, 0, 2, 1, 65, 0, 9, 0, 0, 0, 0, 0, 0, 0, 1, 66, 0, 17,
                              0, 0, 0, 0, 0, 0, 0, 2, 65, 0],
          journal_file := Some [30, 0, 0, 0, 2, 1, 65, 0, 9, 0, 0, 0, 0, 0, 0, 0, 1, 66, 0,
                                17, 0, 0, 0, 0, 0, 0, 0, 2, 65, 0, 228, 0, 0, 0]\<rparr>"
    unfolding store_server_journal_eq [OF v] h example_journal
    by (simp add: example_monitor_def)
  let ?T = "stopped_monitor\<lparr>journal_file := Some (journal_of byte_sum example_monitor)\<rparr>"
  have n: "map srv_name (m_servers ?T) = map srv_name (m_servers example_monitor)"
    by (simp add: stopped_monitor_def example_monitor_def example_server_def)
  have f: "journal_file ?T = Some (journal_of byte_sum example_monitor)" by simp
  from load_journal_of [OF v n f, of byte_sum]
  have "load_server_journal byte_sum True ?T
         = Inr (?T\<lparr>m_servers := map2 (\<lambda>db s. load_status (srv_status s) db)
                                  (m_servers ?T) (m_servers example_monitor),
                 m_master := (case m_master example_monitor of None \<Rightarrow> m_master ?T
                              | Some m \<Rightarrow> Some m),
                 mon_log := mon_log ?T @ [LogNotice ''Loaded server states from journal file'']\<rparr>)"
    by simp
  then have two: "load_server_journal byte_sum True
        (stopped_monitor
           \<lparr>journal_file := Some [30, 0, 0, 0, 2, 1, 65, 0, 9, 0, 0, 0, 0, 0, 0, 0, 1, 66, 0,
                                  17, 0, 0, 0, 0, 0, 0, 0, 2, 65, 0, 228, 0, 0, 0]\<rparr>)
     = Inr (stopped_monitor
              \<lparr>journal_file := Some [30, 0, 0, 0, 2, 1, 65, 0, 9, 0, 0, 0, 0, 0, 0, 0, 1, 66,
                                     0, 17, 0, 0, 0, 0, 0, 0, 0, 2, 65, 0, 228, 0, 0, 0],
               m_servers :=
                 [(example_server 100 [0x41] (SERVER_RUNNING OR SERVER_MASTER OR SERVER_SLAVE))
                    \<lparr>mon_prev_status := SERVER_RUNNING OR SERVER_MASTER\<rparr>,
                  (example_server 200 [0x42] (SERVER_RUNNING OR SERVER_MASTER OR SERVER_SLAVE))
                    \<lparr>mon_prev_status := SERVER_RUNNING OR SERVER_SLAVE\<rparr>],
               m_master := Some 0,
               mon_log := [LogNotice ''Loaded server states from journal file'']\<rparr>)"
    unfolding example_journal
    by (simp add: stopped_monitor_def example_monitor_def example_server_def load_status_def
        status_bit_defs)
  have three: "map srv_status (m_servers example_monitor)
       = [SERVER_RUNNING OR SERVER_MASTER, SERVER_RUNNING OR SERVER_SLAVE]"
    by (simp add: example_monitor_def example_server_def)
  from one two three show ?thesis by simp
qed


text \<open>
  C6, amended. For every valid state S of a monitor (servers with pairwise different names,
  their status words, an optional master, a journal that fits its 32-bit length):
  \<^verbatim>\<open>store_server_journal\<close> writes the journal of S and remembers its hash, unless the hash
  is the one it wrote last, when it leaves the file alone. A monitor with the same server
  names that loads the written file accepts it (length, schema version, CRC32): every
  server gets the stored flags as its previous status and has them added (bitwise or) to
  the flags it has, and the master pointer becomes the stored one when one was stored. So
  S is restored exactly when the reader brings no other flags, as after a restart, with no
  flag set and no master. A file whose schema-version byte is not 2, or whose trailing
  CRC32 is not the checksum of its payload, is rejected and nothing is applied.
\<close>

theorem journal_round_trip:
  assumes v: "valid_journal_state S"
    and names: "map srv_name (m_servers T) = map srv_name (m_servers S)"
  shows "store_server_journal crc32 SHA1 IoOk S (m_master S)
           = (if m_journal_hash S = journal_hash crc32 SHA1 S then S
              else S\<lparr>m_journal_hash := journal_hash crc32 SHA1 S,
                     journal_file := Some (journal_of crc32 S)\<rparr>)
       \<and> (m_journal_hash S \<noteq> journal_hash crc32 SHA1 S \<longrightarrow>
            load_server_journal crc32 True
              (T\<lparr>journal_file :=
                   journal_file (store_server_journal crc32 SHA1 IoOk S (m_master S))\<rparr>)
            = Inr (T\<lparr>journal_file := Some (journal_of crc32 S),
                     m_servers := map2 (\<lambda>db s. load_status (srv_status s) db)
                                    (m_servers T) (m_servers S),
                     m_master := (case m_master S of None \<Rightarrow> m_master T | Some m \<Rightarrow> Some m),
                     mon_log := mon_log T
                       @ [LogNotice ''Loaded server states from journal file'']\<rparr>))
       \<and> map srv_name (map2 (\<lambda>db s. load_status (srv_status s) db) (m_servers T) (m_servers S))
           = map srv_name (m_servers S)
       \<and> map srv_status
            (map2 (\<lambda>db s. load_status (srv_status s) db) (m_servers T) (m_servers S))
           = map2 (\<lambda>t s. srv_status t OR srv_status s) (m_servers T) (m_servers S)
       \<and> map mon_prev_status
            (map2 (\<lambda>db s. load_status (srv_status s) db) (m_servers T) (m_servers S))
           = map srv_status (m_servers S)
       \<and> ((\<forall>db \<in> set (m_servers T). srv_status db = 0) \<longrightarrow>
            map srv_status
              (map2 (\<lambda>db s. load_status (srv_status s) db) (m_servers T) (m_servers S))
            = map srv_status (m_servers S))
       \<and> (m_master T = None \<longrightarrow>
            (case m_master S of None \<Rightarrow> m_master T | Some m \<Rightarrow> Some m) = m_master S)
       \<and> (\<forall>ver. ver \<noteq> MMB_SCHEMA_VERSION \<longrightarrow>
            load_server_journal crc32 True
              (T\<lparr>journal_file := Some ((journal_of crc32 S)[4 := ver])\<rparr>)
            = Inr (T\<lparr>journal_file := Some ((journal_of crc32 S)[4 := ver]),
                     mon_log := mon_log T @ [LogError ''Unknown journal schema version'']\<rparr>))
       \<and> (\<forall>other_crc. other_crc (journal_body S) \<noteq> crc32 (journal_body S) \<longrightarrow>
            load_server_journal crc32 True (T\<lparr>journal_file := Some (journal_of other_crc S)\<rparr>)
            = Inr (T\<lparr>journal_file := Some (journal_of other_crc S),
                     mon_log := mon_log T
                       @ [LogError ''CRC32 mismatch in journal file. Ignoring.'']\<rparr>))"
proof (intro conjI allI impI)
  show "store_server_journal crc32 SHA1 IoOk S (m_master S)
           = (if m_journal_hash S = journal_hash crc32 SHA1 S then S
              else S\<lparr>m_journal_hash := journal_hash crc32 SHA1 S,
                     journal_file := Some (journal_of crc32 S)\<rparr>)"
    using v by (rule store_server_journal_eq)
next
  assume fresh: "m_journal_hash S \<noteq> journal_hash crc32 SHA1 S"
  let ?T = "T\<lparr>journal_file := Some (journal_of crc32 S)\<rparr>"
  have w: "journal_file (store_server_journal crc32 SHA1 IoOk S (m_master S))
           = Some (journal_of crc32 S)"
    using fresh by (simp add: store_server_journal_eq [OF v])
  have n: "map srv_name (m_servers ?T) = map srv_name (m_servers S)" using names by simp
  have f: "journal_file ?T = Some (journal_of crc32 S)" by simp
  from load_journal_of [OF v n f, of crc32]
  show "load_server_journal crc32 True
              (T\<lparr>journal_file :=
                   journal_file (store_server_journal crc32 SHA1 IoOk S (m_master S))\<rparr>)
            = Inr (T\<lparr>journal_file := Some (journal_of crc32 S),
                     m_servers := map2 (\<lambda>db s. load_status (srv_status s) db)
                                    (m_servers T) (m_servers S),
                     m_master := (case m_master S of None \<Rightarrow> m_master T | Some m \<Rightarrow> Some m),
                     mon_log := mon_log T
                       @ [LogNotice ''Loaded server states from journal file'']\<rparr>)"
    unfolding w by (simp split: option.splits)
next
  from names have len: "length (m_servers T) = length (m_servers S)" by (metis length_map)
  show "map srv_name (map2 (\<lambda>db s. load_status (srv_status s) db) (m_servers T) (m_servers S))
           = map srv_name (m_servers S)"
    using map2_load_status(2) [OF len] names by simp
  show st: "map srv_status
            (map2 (\<lambda>db s. load_status (srv_status s) db) (m_servers T) (m_servers S))
           = map2 (\<lambda>t s. srv_status t OR srv_status s) (m_servers T) (m_servers S)"
    using len by (rule map2_load_status(1))
  show "map mon_prev_status
            (map2 (\<lambda>db s. load_status (srv_status s) db) (m_servers T) (m_servers S))
           = map srv_status (m_servers S)"
    using len by (rule map2_load_status(3))
  {
    assume "\<forall>db \<in> set (m_servers T). srv_status db = 0"
    with len show "map srv_status
              (map2 (\<lambda>db s. load_status (srv_status s) db) (m_servers T) (m_servers S))
            = map srv_status (m_servers S)"
      unfolding st by (rule map2_or_zero)
  }
next
  assume "m_master T = None"
  then show "(case m_master S of None \<Rightarrow> m_master T | Some m \<Rightarrow> Some m) = m_master S"
    by (cases "m_master S") simp_all
next
  fix ver :: byte
  assume "ver \<noteq> MMB_SCHEMA_VERSION"
  with v show "load_server_journal crc32 True
              (T\<lparr>journal_file := Some ((journal_of crc32 S)[4 := ver])\<rparr>)
            = Inr (T\<lparr>journal_file := Some ((journal_of crc32 S)[4 := ver]),
                     mon_log := mon_log T @ [LogError ''Unknown journal schema version'']\<rparr>)"
    by (rule load_wrong_version)
next
  fix other_crc :: "byte list \<Rightarrow> 32 word"
  assume d: "other_crc (journal_body S) \<noteq> crc32 (journal_body S)"
  let ?T = "T\<lparr>journal_file := Some (journal_of other_crc S)\<rparr>"
  have n: "map srv_name (m_servers ?T) = map srv_name (m_servers S)" using names by simp
  have f: "journal_file ?T = Some (journal_of other_crc S)" by simp
  from load_journal_of [OF v n f, of crc32] d
  show "load_server_journal crc32 True ?T
        = Inr (T\<lparr>journal_file := Some (journal_of other_crc S),
                 mon_log := mon_log T
                   @ [LogError ''CRC32 mismatch in journal file. Ignoring.'']\<rparr>)"
    by simp
qed


theorem journal_round_trip_witness:
  "valid_journal_state example_monitor
   \<and> map srv_name (m_servers (restarted [] example_monitor))
       = map srv_name (m_servers example_monitor)
   \<and> map srv_status (m_servers (restarted [] example_monitor)) = [0, 0]
   \<and> m_master (restarted [] example_monitor) = None
   \<and> m_journal_hash example_monitor \<noteq> journal_hash byte_sum (\<lambda>bs. bs) example_monitor
   \<and> journal_file
        (store_server_journal byte_sum (\<lambda>bs. bs) IoOk example_monitor
           (m_master example_monitor))
       = Some [30, 0, 0, 0, 2, 1, 65, 0, 9, 0, 0, 0, 0, 0, 0, 0, 1, 66, 0, 17, 0, 0, 0, 0, 0,
               0, 0, 2, 65, 0, 228, 0, 0, 0]
   \<and> load_server_journal byte_sum True
        ((restarted [] example_monitor)
           \<lparr>journal_file := Some [30, 0, 0, 0, 2, 1, 65, 0, 9, 0, 0, 0, 0, 0, 0, 0, 1, 66, 0,
                                  17, 0, 0, 0, 0, 0, 0, 0, 2, 65, 0, 228, 0, 0, 0]\<rparr>)
       = Inr (example_monitor
                \<lparr>journal_file := Some [30, 0, 0, 0, 2, 1, 65, 0, 9, 0, 0, 0, 0, 0, 0, 0, 1,
                                       66, 0, 17, 0, 0, 0, 0, 0, 0, 0, 2, 65, 0, 228, 0, 0, 0],
                 mon_log := [LogNotice ''Loaded server states from journal file'']\<rparr>)
   \<and> 3 \<noteq> MMB_SCHEMA_VERSION
   \<and> load_server_journal byte_sum True
        ((restarted [] example_monitor)
           \<lparr>journal_file := Some [30, 0, 0, 0, 3, 1, 65, 0, 9, 0, 0, 0, 0, 0, 0, 0, 1, 66, 0,
                                  17, 0, 0, 0, 0, 0, 0, 0, 2, 65, 0, 228, 0, 0, 0]\<rparr>)
       = Inr ((restarted [] example_monitor)
                \<lparr>journal_file := Some [30, 0, 0, 0, 3, 1, 65, 0, 9, 0, 0, 0, 0, 0, 0, 0, 1,
                                       66, 0, 17, 0, 0, 0, 0, 0, 0, 0, 2, 65, 0, 228, 0, 0, 0],
                 mon_log := [LogError ''Unknown journal schema version'']\<rparr>)
   \<and> (\<lambda>bs. 0) (journal_body example_monitor) \<noteq> byte_sum (journal_body example_monitor)
   \<and> load_server_journal byte_sum True
        ((restarted [] example_monitor)
           \<lparr>journal_file := Some [30, 0, 0, 0, 2, 1, 65, 0, 9, 0, 0, 0, 0, 0, 0, 0, 1, 66, 0,
                                  17, 0, 0, 0, 0, 0, 0, 0, 2, 65, 0, 0, 0, 0, 0]\<rparr>)
       = Inr ((restarted [] example_monitor)
                \<lparr>journal_file := Some [30, 0, 0, 0, 2, 1, 65, 0, 9, 0, 0, 0, 0, 0, 0, 0, 1,
                                       66, 0, 17, 0, 0, 0, 0, 0, 0, 0, 2, 65, 0, 0, 0, 0, 0],
                 mon_log := [LogError ''CRC32 mismatch in journal file. Ignoring.'']\<rparr>)"
proof -
  let ?T = "restarted [] example_monitor"
  have v: "valid_journal_state example_monitor"
    by (simp add: journal_eval)
  have n: "map srv_name (m_servers ?T) = map srv_name (m_servers example_monitor)"
    by (rule restarted_names)
  have z: "map srv_status (m_servers ?T) = [0, 0]" "m_master ?T = None" "mon_log ?T = []"
    "\<forall>db \<in> set (m_servers ?T). srv_status db = 0"
    by (simp_all add: restarted_def example_monitor_def example_server_def)
  have h: "journal_hash byte_sum (\<lambda>bs. bs) example_monitor
           = [30, 0, 0, 0, 2, 1, 65, 0, 9, 0, 0, 0, 0, 0, 0, 0, 1, 66, 0, 17,
              0, 0, 0, 0, 0, 0, 0, 2, 65, 0]"
    unfolding journal_hash_def example_journal
    by (simp add: journal_size_def example_monitor_def example_server_def
        MMB_LEN_SCHEMA_VERSION_def MMB_LEN_CRC32_def MMB_LEN_VALUE_TYPE_def
        MMB_LEN_SERVER_STATUS_def)
  have fresh: "m_journal_hash example_monitor \<noteq> journal_hash byte_sum (\<lambda>bs. bs) example_monitor"
    unfolding h by (simp add: example_monitor_def)
  have d: "(\<lambda>bs. 0) (journal_body example_monitor) \<noteq> byte_sum (journal_body example_monitor)"
    by (simp add: journal_body_def journal_eval)
  have j0: "journal_of (\<lambda>bs. 0) example_monitor
            = [30, 0, 0, 0, 2, 1, 65, 0, 9, 0, 0, 0, 0, 0, 0, 0, 1, 66, 0, 17, 0, 0, 0, 0, 0, 0,
               0, 2, 65, 0, 0, 0, 0, 0]"
    by (simp add: journal_eval)
  have ver: "3 \<noteq> MMB_SCHEMA_VERSION" by (simp add: MMB_SCHEMA_VERSION_def)
  have loaded: "?T\<lparr>journal_file := Some (journal_of byte_sum example_monitor),
                  m_servers := map2 (\<lambda>db s. load_status (srv_status s) db)
                                 (m_servers ?T) (m_servers example_monitor),
                  m_master := (case m_master example_monitor of None \<Rightarrow> m_master ?T
                               | Some m \<Rightarrow> Some m),
                  mon_log := mon_log ?T
                    @ [LogNotice ''Loaded server states from journal file'']\<rparr>
                = example_monitor
                    \<lparr>journal_file := Some (journal_of byte_sum example_monitor),
                     mon_log := [LogNotice ''Loaded server states from journal file'']\<rparr>"
    by (simp add: restarted_def example_monitor_def example_server_def load_status_def)
  note R = journal_round_trip [OF v n, of byte_sum "\<lambda>bs. bs"]
  note c1 = R [THEN conjunct1]
  note c2 = R [THEN conjunct2, THEN conjunct1, rule_format]
  note c8 = R [THEN conjunct2, THEN conjunct2, THEN conjunct2, THEN conjunct2, THEN conjunct2,
      THEN conjunct2, THEN conjunct2, THEN conjunct1, rule_format]
  note c9 = R [THEN conjunct2, THEN conjunct2, THEN conjunct2, THEN conjunct2, THEN conjunct2,
      THEN conjunct2, THEN conjunct2, THEN conjunct2, rule_format]
  from c1 fresh
  have w: "store_server_journal byte_sum (\<lambda>bs. bs) IoOk example_monitor
              (m_master example_monitor)
            = example_monitor\<lparr>m_journal_hash := journal_hash byte_sum (\<lambda>bs. bs) example_monitor,
                journal_file := Some (journal_of byte_sum example_monitor)\<rparr>"
    by simp
  from c2 [OF fresh]
  have r: "load_server_journal byte_sum True
             (?T\<lparr>journal_file :=
                  journal_file (store_server_journal byte_sum (\<lambda>bs. bs) IoOk example_monitor
                    (m_master example_monitor))\<rparr>)
           = Inr (example_monitor
                    \<lparr>journal_file := Some (journal_of byte_sum example_monitor),
                     mon_log := [LogNotice ''Loaded server states from journal file'']\<rparr>)"
    by (simp only: loaded)
  from c8 [OF ver]
  have rv: "load_server_journal byte_sum True
              (?T\<lparr>journal_file := Some ((journal_of byte_sum example_monitor)[4 := 3])\<rparr>)
            = Inr (?T\<lparr>journal_file := Some ((journal_of byte_sum example_monitor)[4 := 3]),
                     mon_log := mon_log ?T @ [LogError ''Unknown journal schema version'']\<rparr>)" .
  from c9 [of "\<lambda>bs. 0"] d
  have rc: "load_server_journal byte_sum True
              (?T\<lparr>journal_file := Some (journal_of (\<lambda>bs. 0) example_monitor)\<rparr>)
            = Inr (?T\<lparr>journal_file := Some (journal_of (\<lambda>bs. 0) example_monitor),
                     mon_log := mon_log ?T
                       @ [LogError ''CRC32 mismatch in journal file. Ignoring.'']\<rparr>)"
    by simp
  have w': "journal_file (store_server_journal byte_sum (\<lambda>bs. bs) IoOk example_monitor
              (m_master example_monitor)) = Some (journal_of byte_sum example_monitor)"
    unfolding w by simp
  from v n z(1,2) fresh ver d w' r [unfolded w'] rv rc
  show ?thesis
    unfolding example_journal j0 z(3) by simp
qed

section \<open>Properties of the tick\<close>

lemma srv_status_tick_server: "srv_status (fst (tick_server pr pMs)) = srv_status pMs"
  by (simp add: tick_server_def Let_def monitor_set_pending_status_def
      monitor_clear_pending_status_def split: probe_result.splits)

lemma published_tick: "published (tick pr monitor) = published monitor"
  by (simp add: published_def tick_def srv_status_tick_server)

lemma m_ticks_tick: "m_ticks (tick pr monitor) = m_ticks monitor"
  by (simp add: tick_def)

lemma m_ticks_requests:
  "m_ticks (monitor_check_maintenance_requests monitor) = m_ticks monitor"
  by (simp add: monitor_check_maintenance_requests_def Let_def)

lemma m_ticks_flush: "m_ticks (flush_server_status monitor) = m_ticks monitor"
  by (simp add: flush_server_status_def)

lemma published_flush:
  "published (flush_server_status monitor)
     = map (\<lambda>pMs. if is_in_maint pMs then srv_status pMs else pending_status pMs)
         (m_servers monitor)"
  by (simp add: published_def flush_server_status_def)

lemma m_ticks_detect: "m_ticks (detect_handle_state_changes monitor) = m_ticks monitor"
  by (simp add: detect_handle_state_changes_def Let_def)

lemma published_detect:
  "published (detect_handle_state_changes monitor) = published monitor"
  by (simp add: published_def detect_handle_state_changes_def Let_def split: option.splits)

lemma m_ticks_hangup: "m_ticks (mon_hangup_failed_servers monitor) = m_ticks monitor"
  by (simp add: mon_hangup_failed_servers_def)

lemma published_hangup:
  "published (mon_hangup_failed_servers monitor) = published monitor"
  by (simp add: published_def mon_hangup_failed_servers_def)

lemma m_ticks_journal:
  "m_ticks (store_server_journal crc sha io monitor master) = m_ticks monitor"
  by (simp add: store_server_journal_def Let_def)

lemma published_journal:
  "published (store_server_journal crc sha io monitor master) = published monitor"
  by (simp add: published_def store_server_journal_def Let_def)

lemma published_ticks_update: "published (monitor\<lparr>m_ticks := n\<rparr>) = published monitor"
  by (simp add: published_def)

lemma flush_ticks_update:
  "flush_server_status (monitor\<lparr>m_ticks := n\<rparr>) = (flush_server_status monitor)\<lparr>m_ticks := n\<rparr>"
  by (simp add: flush_server_status_def)

lemmas tick_steps =
  m_ticks_tick m_ticks_requests m_ticks_flush m_ticks_detect m_ticks_hangup m_ticks_journal
  published_tick published_detect published_hangup published_journal published_ticks_update
  flush_ticks_update

text \<open>The tick of the example: nothing is requested, A answers and stays the master, B
  does not answer and loses every flag in its pending status.\<close>

lemma example_requests: "monitor_check_maintenance_requests example_monitor = example_monitor"
  by (simp add: monitor_check_maintenance_requests_def example_monitor_def)

lemma example_published:
  "published example_monitor
     = [SERVER_RUNNING OR SERVER_MASTER, SERVER_RUNNING OR SERVER_SLAVE]"
  by (simp add: published_def example_monitor_def example_server_def)

lemma example_tick_servers:
  "map (\<lambda>pMs. if is_in_maint pMs then srv_status pMs else pending_status pMs)
     (m_servers (tick (probe slave_down_env) example_monitor))
     = [SERVER_RUNNING OR SERVER_MASTER, 0]"
  by (simp add: tick_def tick_server_def slave_down_env_def example_monitor_def
      example_server_def is_in_maint_def is_down_def monitor_set_pending_status_def
      monitor_clear_pending_status_def mon_status_changed_def mon_print_fail_status_def
      Let_def status_bit_defs all_server_bits_def server_type_bits_def)

section \<open>Claims about the tick\<close>

text \<open>
  C4, as stated: everything a tick publishes is visible to routers before the tick counter
  is incremented, so a reader that observes the new count has observed the flags of this
  tick. The code differs: in the tick of the example, in which the slave B stops answering,
  the state right after the increment has the new count 1 and still shows B as a running
  slave; the tick publishes B without any flag only in the next statement.
\<close>

theorem tick_visibility_counterexample:
  "m_ticks (run_one_tick_states slave_down_env example_monitor ! 2) = 1
   \<and> m_ticks (run_one_tick slave_down_env example_monitor) = 1
   \<and> published (run_one_tick_states slave_down_env example_monitor ! 2)
       = [SERVER_RUNNING OR SERVER_MASTER, SERVER_RUNNING OR SERVER_SLAVE]
   \<and> published (run_one_tick slave_down_env example_monitor)
       = [SERVER_RUNNING OR SERVER_MASTER, 0]
   \<and> SERVER_RUNNING OR SERVER_SLAVE \<noteq> 0"
proof -
  have t: "m_ticks example_monitor = 0" by (simp add: example_monitor_def)
  have nz: "SERVER_RUNNING OR SERVER_SLAVE \<noteq> 0" by (simp add: status_bit_defs)
  show ?thesis
    using nz
    by (simp add: run_one_tick_def run_one_tick_states_def Let_def tick_steps
        published_flush example_requests example_published example_tick_servers t)
qed

text \<open>
  C4, as the code has it: \<^verbatim>\<open>run_one_tick\<close> increments the tick counter after the probes
  have staged the pending flags and before \<^verbatim>\<open>flush_server_status\<close> publishes them. Of
  the seven states of a tick the first two carry the old count and the other five the new
  one. The flags a router can read are, in the first three states (so also in the first
  state with the new count), those from before the tick with the administrator's requests
  applied; in the last four they are the flags published by this tick, that is the pending
  status of every server out of maintenance. So a reader that observes the new count has
  observed everything published by earlier ticks, and the flags of this tick only from the
  fourth state on.
\<close>

theorem tick_counter_order:
  "map m_ticks (run_one_tick_states env monitor)
     = [m_ticks monitor, m_ticks monitor, m_ticks monitor + 1, m_ticks monitor + 1,
        m_ticks monitor + 1, m_ticks monitor + 1, m_ticks monitor + 1]
   \<and> map published (run_one_tick_states env monitor)
     = (let before = published (monitor_check_maintenance_requests monitor);
            after = map (\<lambda>pMs. if is_in_maint pMs then srv_status pMs
                                else pending_status pMs)
                      (m_servers (tick (probe env)
                         (monitor_check_maintenance_requests monitor)))
        in [before, before, before, after, after, after, after])
   \<and> m_ticks (run_one_tick env monitor) = m_ticks monitor + 1
   \<and> published (run_one_tick env monitor)
     = map (\<lambda>pMs. if is_in_maint pMs then srv_status pMs else pending_status pMs)
         (m_servers (tick (probe env) (monitor_check_maintenance_requests monitor)))"
proof -
  define s1 where "s1 = monitor_check_maintenance_requests monitor"
  define s2 where "s2 = tick (probe env) s1"
  define s3 where "s3 = s2\<lparr>m_ticks := m_ticks s2 + 1\<rparr>"
  define s4 where "s4 = flush_server_status s3"
  define s5 where "s5 = detect_handle_state_changes s4"
  define s6 where "s6 = mon_hangup_failed_servers s5"
  define s7 where
    "s7 = store_server_journal (crc32_fn env) (sha1_fn env) (journal_io env) s6 (m_master s6)"
  define after where
    "after = map (\<lambda>pMs. if is_in_maint pMs then srv_status pMs else pending_status pMs)
               (m_servers s2)"
  have states: "run_one_tick_states env monitor = [s1, s2, s3, s4, s5, s6, s7]"
    by (simp add: run_one_tick_states_def Let_def s1_def s2_def s3_def s4_def s5_def s6_def
        s7_def)
  have t1: "m_ticks s1 = m_ticks monitor" by (simp add: s1_def m_ticks_requests)
  have t2: "m_ticks s2 = m_ticks monitor" by (simp add: s2_def m_ticks_tick t1)
  have t3: "m_ticks s3 = m_ticks monitor + 1" by (simp add: s3_def t2)
  have t4: "m_ticks s4 = m_ticks monitor + 1" by (simp add: s4_def m_ticks_flush t3)
  have t5: "m_ticks s5 = m_ticks monitor + 1" by (simp add: s5_def m_ticks_detect t4)
  have t6: "m_ticks s6 = m_ticks monitor + 1" by (simp add: s6_def m_ticks_hangup t5)
  have t7: "m_ticks s7 = m_ticks monitor + 1" by (simp add: s7_def m_ticks_journal t6)
  have p2: "published s2 = published s1" by (simp add: s2_def published_tick)
  have p3: "published s3 = published s1" by (simp add: s3_def published_ticks_update p2)
  have "m_servers s3 = m_servers s2" by (simp add: s3_def)
  then have p4: "published s4 = after" by (simp add: s4_def published_flush after_def)
  have p5: "published s5 = after" by (simp add: s5_def published_detect p4)
  have p6: "published s6 = after" by (simp add: s6_def published_hangup p5)
  have p7: "published s7 = after" by (simp add: s7_def published_journal p6)
  have "map m_ticks (run_one_tick_states env monitor)
          = [m_ticks monitor, m_ticks monitor, m_ticks monitor + 1, m_ticks monitor + 1,
             m_ticks monitor + 1, m_ticks monitor + 1, m_ticks monitor + 1]"
    by (simp add: states t1 t2 t3 t4 t5 t6 t7)
  moreover have "map published (run_one_tick_states env monitor)
          = [published s1, published s1, published s1, after, after, after, after]"
    by (simp add: states p2 p3 p4 p5 p6 p7)
  moreover have "run_one_tick env monitor = s7" by (simp add: run_one_tick_def states)
  ultimately show ?thesis
    by (simp add: Let_def t7 p7 after_def s1_def s2_def)
qed

theorem tick_counter_order_witness:
  "map m_ticks (run_one_tick_states slave_down_env example_monitor) = [0, 0, 1, 1, 1, 1, 1]
   \<and> map published (run_one_tick_states slave_down_env example_monitor)
     = [[SERVER_RUNNING OR SERVER_MASTER, SERVER_RUNNING OR SERVER_SLAVE],
        [SERVER_RUNNING OR SERVER_MASTER, SERVER_RUNNING OR SERVER_SLAVE],
        [SERVER_RUNNING OR SERVER_MASTER, SERVER_RUNNING OR SERVER_SLAVE],
        [SERVER_RUNNING OR SERVER_MASTER, 0], [SERVER_RUNNING OR SERVER_MASTER, 0],
        [SERVER_RUNNING OR SERVER_MASTER, 0], [SERVER_RUNNING OR SERVER_MASTER, 0]]"
proof -
  have t: "m_ticks example_monitor = 0" by (simp add: example_monitor_def)
  show ?thesis
    using tick_counter_order [of slave_down_env example_monitor]
    by (simp add: Let_def example_requests example_published example_tick_servers t)
qed

end
